theory Spec2Isabelle
  imports Main "HOL-Library.Word" "HOL-Library.Multiset"
begin

unbundle bit_operations_syntax

section \<open>Target types\<close>

text \<open>
  The sketch \<^verbatim>\<open>src/main.cpp\<close> runs on an 8-bit AVR board: \<^verbatim>\<open>byte\<close> and
  \<^verbatim>\<open>uint8_t\<close> are 8 bits, \<^verbatim>\<open>int\<close> and \<^verbatim>\<open>uint16_t\<close> are 16 bits,
  \<^verbatim>\<open>long\<close> is 32 bits. Arithmetic on them is arithmetic on words (it wraps around);
  a signed comparison reads both sides with \<open>sint\<close>.
\<close>

type_synonym byte = "8 word"
type_synonym cint = "16 word"
type_synonym long = "32 word"

section \<open>Hardware: pins, sensor, display, EEPROM\<close>

datatype pin_level = LOW | HIGH

datatype out_pin = LED_BUILTIN | RELAY_PIN | A2

text \<open>
  Everything the sketch drives is recorded, in order, as a list of events: the digital
  outputs and the calls on the LCD. A number printed on the LCD is \<open>None\<close> when it was
  read from outside an array: the sketch then shows whatever lies behind the array.
  Serial logging, pin configuration and \<^verbatim>\<open>delay\<close> have no counterpart here.
\<close>

datatype event =
    DigitalWrite out_pin pin_level
  | Lcd_clear
  | Lcd_setCursor nat nat
  | Lcd_print string
  | Lcd_println string
  | Lcd_print_num "int option"

text \<open>
  The inputs are sequences fixed in advance: the \<open>k\<close>-th \<^verbatim>\<open>digitalRead\<close> of a button
  returns the \<open>k\<close>-th level of that button's sequence, the \<open>k\<close>-th
  \<^verbatim>\<open>scale.read()\<close> the \<open>k\<close>-th raw sample. \<open>units_in\<close> is the sequence of values
  that \<^verbatim>\<open>scale.get_units(5) * -1\<close> has after its conversion to \<^verbatim>\<open>long\<close> (the
  averaging and the floating-point arithmetic belong to the HX711 library).
\<close>

record inputs =
  dispense_in :: "nat \<Rightarrow> pin_level"
  mode_in :: "nat \<Rightarrow> pin_level"
  scale_in :: "nat \<Rightarrow> long"
  units_in :: "nat \<Rightarrow> long"

type_synonym eeprom_store = "cint \<Rightarrow> byte"

text \<open>
  The globals of the sketch (\<open>val\<close>, \<open>index\<close>, \<open>selectedMode\<close>, the static \<open>State\<close> of
  \<^verbatim>\<open>DebounceSwitch\<close>), the EEPROM, how many samples of each input have been consumed,
  and the events so far.
\<close>

record machine =
  val :: "long list"
  index :: byte
  selectedMode :: cint
  State :: "16 word"
  eeprom :: eeprom_store
  dispense_reads :: nat
  mode_reads :: nat
  scale_reads :: nat
  units_reads :: nat
  trace :: "event list"

definition address :: "cint list" where
  "address = [0, 4, 8]"

definition VOLUME :: "cint list" where
  "VOLUME = [200, 450, 900]"

text \<open>The state at power-up, for an EEPROM content \<open>ee\<close>.\<close>

definition power_up :: "eeprom_store \<Rightarrow> machine" where
  "power_up ee =
     \<lparr>val = [220000, 240000, 250000, - 1], index = 0, selectedMode = 0, State = 0,
      eeprom = ee, dispense_reads = 0, mode_reads = 0, scale_reads = 0, units_reads = 0,
      trace = []\<rparr>"

definition emit :: "event list \<Rightarrow> machine \<Rightarrow> machine" where
  "emit evs s = s\<lparr>trace := trace s @ evs\<rparr>"

definition digitalRead_DISPENSE :: "inputs \<Rightarrow> machine \<Rightarrow> pin_level \<times> machine" where
  "digitalRead_DISPENSE inp s =
     (dispense_in inp (dispense_reads s), s\<lparr>dispense_reads := Suc (dispense_reads s)\<rparr>)"

definition digitalRead_MODE :: "inputs \<Rightarrow> machine \<Rightarrow> pin_level \<times> machine" where
  "digitalRead_MODE inp s =
     (mode_in inp (mode_reads s), s\<lparr>mode_reads := Suc (mode_reads s)\<rparr>)"

definition scale_read :: "inputs \<Rightarrow> machine \<Rightarrow> long \<times> machine" where
  "scale_read inp s = (scale_in inp (scale_reads s), s\<lparr>scale_reads := Suc (scale_reads s)\<rparr>)"

definition scale_get_units_neg :: "inputs \<Rightarrow> machine \<Rightarrow> long \<times> machine" where
  "scale_get_units_neg inp s =
     (units_in inp (units_reads s), s\<lparr>units_reads := Suc (units_reads s)\<rparr>)"

text \<open>
  A C array read. Outside the array the read is undefined in C; the model makes it
  \<open>None\<close>.
\<close>

definition array_read :: "'a list \<Rightarrow> int \<Rightarrow> 'a option" where
  "array_read xs i = (if 0 \<le> i \<and> i < int (length xs) then Some (xs ! nat i) else None)"

section \<open>Outcomes of code with busy-wait loops\<close>

text \<open>
  Every loop of the sketch that waits for an input may spin forever. Each such loop takes
  a bound \<open>fuel\<close> on its number of iterations. \<open>Returned\<close> is a run that came back,
  \<open>Running\<close> is a run still inside a loop when the bound was used up (with the state
  it had reached), \<open>Fault\<close> is a run whose control flow depends on a read outside an
  array.
\<close>

datatype ('r, 's) outcome = Returned 'r | Running 's | Fault

definition and_then :: "('a, 's) outcome \<Rightarrow> ('a \<Rightarrow> ('b, 's) outcome) \<Rightarrow> ('b, 's) outcome" where
  "and_then r f = (case r of Returned x \<Rightarrow> f x | Running s \<Rightarrow> Running s | Fault \<Rightarrow> Fault)"

section \<open>EEPROMWrite and EEPROMRead\<close>

text \<open>
  \<^verbatim>\<open>EEPROMWrite(int address, long value)\<close>: \<^verbatim>\<open>>>\<close> on a negative \<^verbatim>\<open>long\<close> is the
  arithmetic shift; the assignment to a \<^verbatim>\<open>byte\<close> truncates.
\<close>

definition EEPROMWrite :: "eeprom_store \<Rightarrow> cint \<Rightarrow> long \<Rightarrow> eeprom_store" where
  "EEPROMWrite ee addr v =
     (let four = (ucast (v AND 0xFF) :: byte);
          three = (ucast (signed_drop_bit 8 v AND 0xFF) :: byte);
          two = (ucast (signed_drop_bit 16 v AND 0xFF) :: byte);
          one = (ucast (signed_drop_bit 24 v AND 0xFF) :: byte)
      in ee(addr := four, addr + 1 := three, addr + 2 := two, addr + 3 := one))"

text \<open>
  \<^verbatim>\<open>EEPROMRead(long address)\<close>: the address arithmetic is done in \<^verbatim>\<open>long\<close> and
  truncated to the \<^verbatim>\<open>int\<close> that \<^verbatim>\<open>EEPROM.read\<close> takes; each byte read is widened
  to \<^verbatim>\<open>long\<close> without sign.
\<close>

definition EEPROMRead :: "eeprom_store \<Rightarrow> long \<Rightarrow> long" where
  "EEPROMRead ee addr =
     (let four = (ucast (ee (ucast addr)) :: long);
          three = (ucast (ee (ucast (addr + 1))) :: long);
          two = (ucast (ee (ucast (addr + 2))) :: long);
          one = (ucast (ee (ucast (addr + 3))) :: long)
      in (push_bit 0 four AND 0xFF) + (push_bit 8 three AND 0xFFFF)
         + (push_bit 16 two AND 0xFFFFFF) + (push_bit 24 one AND 0xFFFFFFFF))"

section \<open>updateMode\<close>

text \<open>
  \<^verbatim>\<open>updateMode(int localIndex)\<close> draws the home screen. \<^verbatim>\<open>VOLUME[localIndex]\<close> only
  reaches the display.
\<close>

definition updateMode :: "cint \<Rightarrow> machine \<Rightarrow> machine" where
  "updateMode localIndex s =
     (if localIndex = 3
      then emit [Lcd_setCursor 0 0, Lcd_print ''Manual Mode     '',
                 Lcd_setCursor 0 1, Lcd_print ''Press to Change''] s
      else emit [Lcd_setCursor 0 0, Lcd_print ''Volume: '',
                 Lcd_print_num (map_option sint (array_read VOLUME (sint localIndex))),
                 Lcd_print ''  mL      '',
                 Lcd_setCursor 0 1, Lcd_print ''Press to change''] s)"

section \<open>DebounceSwitch\<close>

text \<open>
  \<^verbatim>\<open>State = (State << 1) | !digitalRead(MODE) | 0xe000\<close> on the 16-bit static
  \<open>State\<close>; \<^verbatim>\<open>!digitalRead(MODE)\<close> is 1 when the pin reads \<open>LOW\<close> (the button is
  held) and 0 when it reads \<open>HIGH\<close>.
\<close>

definition next_State :: "16 word \<Rightarrow> pin_level \<Rightarrow> 16 word" where
  "next_State st lvl = push_bit 1 st OR (if lvl = LOW then 1 else 0) OR 0xe000"

definition DebounceSwitch :: "inputs \<Rightarrow> machine \<Rightarrow> byte \<times> machine" where
  "DebounceSwitch inp s =
     (let (lvl, s1) = digitalRead_MODE inp s;
          st = next_State (State s1) lvl
      in (if st = 0xf000 then 1 else 0, s1\<lparr>State := st\<rparr>))"

section \<open>control\<close>

text \<open>
  One pass of the \<^verbatim>\<open>do\<close> loop of \<^verbatim>\<open>control\<close>, for the array length \<open>n\<close> (the sketch
  sets \<^verbatim>\<open>byte n = 3\<close>): \<open>n\<close> readings \<^verbatim>\<open>-1 * scale.read()\<close> are logged into
  \<open>medianArray\<close>, the two nested \<^verbatim>\<open>for\<close> loops exchange neighbours that are out of
  order, and the pass yields \<^verbatim>\<open>medianArray[(n + 1) / 2]\<close>.
\<close>

definition log_readings :: "nat \<Rightarrow> inputs \<Rightarrow> machine \<Rightarrow> long list \<times> machine" where
  "log_readings n inp s =
     (map (\<lambda>m. - 1 * scale_in inp (scale_reads s + m)) [0..<n],
      s\<lparr>scale_reads := scale_reads s + n\<rparr>)"

definition exchange :: "long list \<Rightarrow> nat \<Rightarrow> long list" where
  "exchange medianArray t =
     (if sint (medianArray ! t) > sint (medianArray ! (t + 1))
      then medianArray[t := medianArray ! (t + 1), t + 1 := medianArray ! t]
      else medianArray)"

definition rearrange :: "nat \<Rightarrow> long list \<Rightarrow> long list" where
  "rearrange n medianArray =
     fold (\<lambda>s a. fold (\<lambda>t a. exchange a t) [0..<n - s - 1] a) [0..<n - 1] medianArray"

definition median_pass :: "nat \<Rightarrow> inputs \<Rightarrow> machine \<Rightarrow> long \<times> machine" where
  "median_pass n inp s =
     (let (medianArray, s1) = log_readings n inp s
      in (rearrange n medianArray ! ((n + 1) div 2), s1))"

text \<open>
  \<^verbatim>\<open>do { ... } while (localVal - medianValue > 0)\<close>: the difference is a 32-bit
  subtraction, read as a signed number.
\<close>

fun dispense_loop :: "nat \<Rightarrow> inputs \<Rightarrow> long \<Rightarrow> machine \<Rightarrow> (machine, machine) outcome" where
  "dispense_loop 0 inp localVal s = Running s"
| "dispense_loop (Suc fuel) inp localVal s =
     (let (medianValue, s1) = median_pass 3 inp s
      in if sint (localVal - medianValue) > 0 then dispense_loop fuel inp localVal s1
         else Returned s1)"

text \<open>\<^verbatim>\<open>while(digitalRead(DISPENSE) == 0){};\<close>\<close>

fun wait_release :: "nat \<Rightarrow> inputs \<Rightarrow> machine \<Rightarrow> (machine, machine) outcome" where
  "wait_release 0 inp s = Running s"
| "wait_release (Suc fuel) inp s =
     (let (lvl, s1) = digitalRead_DISPENSE inp s
      in if lvl = LOW then wait_release fuel inp s1 else Returned s1)"

definition control :: "nat \<Rightarrow> inputs \<Rightarrow> long \<Rightarrow> machine \<Rightarrow> (machine, machine) outcome" where
  "control fuel inp localVal s =
     and_then
       (if localVal \<noteq> - 1 then dispense_loop fuel inp localVal s
        else wait_release fuel inp
               (emit [Lcd_clear, Lcd_setCursor 0 0, Lcd_print ''Manual mode'',
                      Lcd_setCursor 0 1, Lcd_print ''Dispensing''] s))
       (\<lambda>s1. Returned (updateMode (ucast (index s1))
                (emit [DigitalWrite LED_BUILTIN LOW, DigitalWrite RELAY_PIN LOW, Lcd_clear] s1)))"

section \<open>loop\<close>

text \<open>The four lines \<^verbatim>\<open>index++; if (index > 3) { index = 0; }\<close> on the byte \<open>index\<close>.\<close>

definition next_index :: "byte \<Rightarrow> byte" where
  "next_index i = (let j = i + 1 in if j > 3 then 0 else j)"

text \<open>
  One iteration of \<^verbatim>\<open>loop()\<close>. \<^verbatim>\<open>val[index]\<close> is read in every iteration (it is
  logged before the test), and it steers the iteration.
\<close>

definition loop :: "nat \<Rightarrow> inputs \<Rightarrow> machine \<Rightarrow> (machine, machine) outcome" where
  "loop fuel inp s =
     (let (switchState, s1) = DebounceSwitch inp s;
          (raw, s2) = scale_read inp s1;
          reading = raw * - 1
      in case array_read (val s2) (uint (index s2)) of
           None \<Rightarrow> Fault
         | Some threshold \<Rightarrow>
             (let (lvl, s3) = digitalRead_DISPENSE inp s2
              in and_then
                   (if lvl = LOW \<and> sint reading < sint threshold
                    then control fuel inp threshold
                           (emit [Lcd_clear, Lcd_setCursor 0 0, Lcd_print ''Dispensing'',
                                  Lcd_setCursor 0 1,
                                  Lcd_print_num
                                    (map_option sint (array_read VOLUME (uint (index s3)))),
                                  Lcd_print ''               '',
                                  DigitalWrite LED_BUILTIN HIGH,
                                  DigitalWrite RELAY_PIN HIGH] s3)
                    else Returned s3)
                   (\<lambda>s4. Returned
                      (if switchState = 1
                       then (let i = next_index (index s4)
                             in updateMode (ucast i) (s4\<lparr>index := i\<rparr>))
                       else s4))))"

section \<open>calibrateFunction\<close>

text \<open>
  The inner loop \<^verbatim>\<open>while (digitalRead(MODE) == 0) { ... }\<close> on the locals
  \<open>localValue\<close> and \<open>flag\<close>.
\<close>

fun hold_loop ::
  "nat \<Rightarrow> inputs \<Rightarrow> machine \<times> long \<times> cint
     \<Rightarrow> (machine \<times> long \<times> cint, machine \<times> long \<times> cint) outcome" where
  "hold_loop 0 inp (s, localValue, flag) = Running (s, localValue, flag)"
| "hold_loop (Suc fuel) inp (s, localValue, flag) =
     (let (lvl, s1) = digitalRead_MODE inp s
      in if lvl = LOW
         then (let s2 = emit [DigitalWrite LED_BUILTIN HIGH, DigitalWrite RELAY_PIN HIGH] s1;
                   (u, s3) = scale_get_units_neg inp s2
               in hold_loop fuel inp (s3, u, if flag = 0 then 1 else flag))
         else Returned (s1, localValue, flag))"

text \<open>
  The outer loop \<^verbatim>\<open>while (flag == 0) { ... }\<close>; \<open>inner\<close> bounds each run of the inner
  loop.
\<close>

fun capture_loop ::
  "nat \<Rightarrow> nat \<Rightarrow> inputs \<Rightarrow> machine \<times> long \<times> cint
     \<Rightarrow> (machine \<times> long \<times> cint, machine \<times> long \<times> cint) outcome" where
  "capture_loop inner 0 inp (s, localValue, flag) = Running (s, localValue, flag)"
| "capture_loop inner (Suc fuel) inp (s, localValue, flag) =
     (if flag = 0
      then and_then (hold_loop inner inp (s, localValue, flag))
             (\<lambda>(s1, localValue1, flag1).
                capture_loop inner fuel inp
                  (emit [DigitalWrite LED_BUILTIN LOW, DigitalWrite RELAY_PIN LOW] s1,
                   localValue1, flag1))
      else Returned (s, localValue, flag))"

definition calibrateFunction ::
  "nat \<Rightarrow> inputs \<Rightarrow> cint \<Rightarrow> machine \<Rightarrow> (machine, machine) outcome" where
  "calibrateFunction fuel inp localIndex s =
     (case array_read (val s) (sint localIndex) of
        None \<Rightarrow> Fault
      | Some localValue \<Rightarrow>
          (let s1 = emit [Lcd_setCursor 0 0, Lcd_print ''Begin Calibration'',
                          Lcd_setCursor 0 1, Lcd_print ''Volume: '',
                          Lcd_print_num (map_option sint (array_read VOLUME (sint localIndex))),
                          Lcd_clear, Lcd_println ''Place container   '',
                          Lcd_clear, Lcd_print ''Press VOL button   '',
                          Lcd_setCursor 0 1, Lcd_print ''to fill     '',
                          Lcd_clear, Lcd_setCursor 0 0, Lcd_print ''Release    '',
                          Lcd_setCursor 0 1, Lcd_print ''to save value  ''] s
           in case capture_loop fuel fuel inp (s1, localValue, 0) of
                Fault \<Rightarrow> Fault
              | Running (s2, localValue2, flag2) \<Rightarrow> Running s2
              | Returned (s2, localValue2, flag2) \<Rightarrow>
                  (let s3 = emit [Lcd_clear, Lcd_print ''Done'', Lcd_setCursor 0 1,
                                  Lcd_print ''Saved: '', Lcd_print_num (Some (sint localValue2)),
                                  Lcd_clear] s2
                   in case array_read address (sint localIndex) of
                        None \<Rightarrow> Fault
                      | Some a \<Rightarrow>
                          Returned (s3\<lparr>eeprom := EEPROMWrite (eeprom s3) a localValue2\<rparr>))))"

section \<open>selection\<close>

text \<open>\<^verbatim>\<open>while (digitalRead(DISPENSE) == 0 || digitalRead(MODE) == 0) {};\<close>\<close>

fun wait_both_released :: "nat \<Rightarrow> inputs \<Rightarrow> machine \<Rightarrow> (machine, machine) outcome" where
  "wait_both_released 0 inp s = Running s"
| "wait_both_released (Suc fuel) inp s =
     (let (d, s1) = digitalRead_DISPENSE inp s
      in if d = LOW then wait_both_released fuel inp s1
         else (let (m, s2) = digitalRead_MODE inp s1
               in if m = LOW then wait_both_released fuel inp s2 else Returned s2))"

text \<open>\<^verbatim>\<open>while (selectionFlag == 0) { ... }\<close> on the locals \<open>selectionFlag\<close> and \<open>selectionIndex\<close>.\<close>

fun selection_loop ::
  "nat \<Rightarrow> inputs \<Rightarrow> machine \<times> cint \<times> cint \<Rightarrow> (machine \<times> cint \<times> cint, machine) outcome" where
  "selection_loop 0 inp (s, selectionFlag, selectionIndex) = Running s"
| "selection_loop (Suc fuel) inp (s, selectionFlag, selectionIndex) =
     (if selectionFlag = 0
      then (let (localSwitchState, s1) = DebounceSwitch inp s;
                (d, s2) = digitalRead_DISPENSE inp s1;
                selectionFlag1 = (if d = LOW then 1 else selectionFlag);
                s3 = updateMode selectionIndex s2;
                selectionIndex1 =
                  (if localSwitchState = 1
                   then (let j = selectionIndex + 1 in if sint j > 2 then 0 else j)
                   else selectionIndex)
            in selection_loop fuel inp (s3, selectionFlag1, selectionIndex1))
      else Returned (s, selectionFlag, selectionIndex))"

definition selection :: "nat \<Rightarrow> inputs \<Rightarrow> machine \<Rightarrow> (cint \<times> machine, machine) outcome" where
  "selection fuel inp s =
     and_then
       (wait_both_released fuel inp
          (emit [Lcd_clear, Lcd_setCursor 0 0, Lcd_print ''Entering Calib''] s))
       (\<lambda>s1. and_then
          (selection_loop fuel inp
             (updateMode 0
                (emit [Lcd_setCursor 0 1, Lcd_print ''Choose Volume'', Lcd_clear,
                       Lcd_setCursor 0 0, Lcd_print ''Press DISPENSE '',
                       Lcd_setCursor 0 1, Lcd_print ''to confirm ''] s1), 0, 0))
          (\<lambda>(s2, selectionFlag, selectionIndex). Returned (selectionIndex, emit [Lcd_clear] s2)))"

section \<open>inspectContents\<close>

fun inspect_loop ::
  "nat \<Rightarrow> inputs \<Rightarrow> machine \<times> cint \<times> cint \<Rightarrow> (machine \<times> cint \<times> cint, machine) outcome" where
  "inspect_loop 0 inp (s, inspectFlag, inspectIndex) = Running s"
| "inspect_loop (Suc fuel) inp (s, inspectFlag, inspectIndex) =
     (if inspectFlag = 0
      then (let (inspectSwitchState, s1) = DebounceSwitch inp s;
                inspectIndex1 =
                  (if inspectSwitchState = 1
                   then (let j = inspectIndex + 1 in if sint j > 3 then 0 else j)
                   else inspectIndex);
                s2 = (if sint inspectIndex1 < 3
                      then emit [Lcd_setCursor 0 0, Lcd_print ''VOLUME: '',
                                 Lcd_print_num
                                   (map_option sint (array_read VOLUME (sint inspectIndex1))),
                                 Lcd_print ''         '', Lcd_setCursor 0 1,
                                 Lcd_print_num
                                   (map_option sint (array_read (val s1) (sint inspectIndex1))),
                                 Lcd_print ''     ''] s1
                      else (let (raw, s1a) = scale_read inp s1
                            in emit [Lcd_setCursor 0 0, Lcd_print ''Current val:     '',
                                     Lcd_setCursor 0 1, Lcd_print_num (Some (sint (raw * - 1))),
                                     Lcd_print ''        ''] s1a));
                (d, s3) = digitalRead_DISPENSE inp s2;
                (s4, inspectFlag1) =
                  (if d = LOW
                   then (emit [Lcd_clear, Lcd_setCursor 0 0, Lcd_print ''Exiting...''] s3, 1)
                   else (s3, inspectFlag))
            in inspect_loop fuel inp (s4, inspectFlag1, inspectIndex1))
      else Returned (s, inspectFlag, inspectIndex))"

definition inspectContents :: "nat \<Rightarrow> inputs \<Rightarrow> machine \<Rightarrow> (machine, machine) outcome" where
  "inspectContents fuel inp s =
     and_then
       (inspect_loop fuel inp
          (emit [Lcd_clear, Lcd_setCursor 0 0, Lcd_print ''Inspect Contents '',
                 Lcd_setCursor 0 0, Lcd_print ''Use VOL button   '',
                 Lcd_setCursor 0 1, Lcd_print ''to toggle'', Lcd_clear,
                 Lcd_setCursor 0 0, Lcd_print ''Use DISP button'',
                 Lcd_setCursor 0 1, Lcd_print ''to exit'', Lcd_clear] s, 0, 0))
       (\<lambda>(s1, inspectFlag, inspectIndex). Returned (emit [Lcd_clear] s1))"

section \<open>setup\<close>

text \<open>
  The loop \<^verbatim>\<open>for (byte i = 0; i < 3; i++) { val[i] = EEPROMRead(address[i]); }\<close>; the
  \<^verbatim>\<open>int\<close> \<^verbatim>\<open>address[i]\<close> is widened with its sign to the \<^verbatim>\<open>long\<close> parameter.
\<close>

definition load_thresholds :: "machine \<Rightarrow> machine" where
  "load_thresholds s =
     fold (\<lambda>i s. s\<lparr>val := (val s)[i := EEPROMRead (eeprom s) (scast (address ! i))]\<rparr>)
       [0..<3] s"

text \<open>
  \<^verbatim>\<open>setup()\<close>, under the name \<open>setup_sketch\<close>. In \<^verbatim>\<open>digitalRead(DISPENSE) == 0 &&
  digitalRead(MODE) == 0\<close> the second read happens only when the first one is \<open>LOW\<close>.
  \<open>setup_tail\<close> is the function from the reload of the thresholds to its end; in
  \<^verbatim>\<open>(digitalRead(MODE)^digitalRead(DISPENSE)) == 1\<close> the two levels differ.
\<close>

definition setup_tail :: "nat \<Rightarrow> inputs \<Rightarrow> machine \<Rightarrow> (machine, machine) outcome" where
  "setup_tail fuel inp s4 =
     (let s5 = load_thresholds s4;
          (m, s6) = digitalRead_MODE inp s5;
          (d, s7) = digitalRead_DISPENSE inp s6
      in and_then (if m \<noteq> d then inspectContents fuel inp s7 else Returned s7)
           (\<lambda>s8. Returned (updateMode (ucast (index s8)) s8)))"

definition setup_sketch :: "nat \<Rightarrow> inputs \<Rightarrow> machine \<Rightarrow> (machine, machine) outcome" where
  "setup_sketch fuel inp s =
     (let s0 = emit [DigitalWrite A2 LOW, Lcd_setCursor 0 0, Lcd_println ''Dispense machine  '',
                     Lcd_setCursor 0 1, Lcd_println ''V1.3  '', Lcd_clear] s;
          (d, s1) = digitalRead_DISPENSE inp s0
      in and_then
           (if d = LOW
            then (let (m, s2) = digitalRead_MODE inp s1
                  in if m = LOW
                     then and_then (selection fuel inp s2)
                            (\<lambda>(sel, s3). calibrateFunction fuel inp sel (s3\<lparr>selectedMode := sel\<rparr>))
                     else Returned s2)
            else Returned s1)
           (setup_tail fuel inp))"

section \<open>The sketch as the board runs it\<close>

text \<open>
  The Arduino runtime calls \<^verbatim>\<open>setup()\<close> once and then \<^verbatim>\<open>loop()\<close> again and again.
  \<open>loop_times fuel n\<close> is \<open>n\<close> iterations of \<^verbatim>\<open>loop()\<close>, and \<open>run_sketch fuel n inp ee\<close> is
  the board from power-up (with the EEPROM content \<open>ee\<close>) to the end of the \<open>n\<close>-th
  iteration.
\<close>

fun loop_times :: "nat \<Rightarrow> nat \<Rightarrow> inputs \<Rightarrow> machine \<Rightarrow> (machine, machine) outcome" where
  "loop_times fuel 0 inp s = Returned s"
| "loop_times fuel (Suc n) inp s = and_then (loop fuel inp s) (loop_times fuel n inp)"

definition run_sketch :: "nat \<Rightarrow> nat \<Rightarrow> inputs \<Rightarrow> eeprom_store \<Rightarrow> (machine, machine) outcome" where
  "run_sketch fuel n inp ee = and_then (setup_sketch fuel inp (power_up ee)) (loop_times fuel n inp)"

section \<open>Concrete inputs\<close>

text \<open>Inputs whose four sequences are constant.\<close>

definition steady :: "pin_level \<Rightarrow> pin_level \<Rightarrow> long \<Rightarrow> long \<Rightarrow> inputs" where
  "steady d m r u =
     \<lparr>dispense_in = (\<lambda>k. d), mode_in = (\<lambda>k. m), scale_in = (\<lambda>k. r), units_in = (\<lambda>k. u)\<rparr>"

text \<open>An erased EEPROM: every cell holds \<open>0xFF\<close>.\<close>

definition erased :: eeprom_store where
  "erased = (\<lambda>a. 0xFF)"

text \<open>
  The sensor delivers the raw samples \<open>-221000\<close>, \<open>-219000\<close>, \<open>-218500\<close> over and over, so
  that the sign-corrected readings are \<open>221000\<close>, \<open>219000\<close>, \<open>218500\<close>.
\<close>

definition scenario_inputs :: inputs where
  "scenario_inputs =
     (steady LOW HIGH 0 0)
       \<lparr>scale_in := (\<lambda>k. if k mod 3 = 0 then - 221000 else if k mod 3 = 1 then - 219000
                          else - 218500)\<rparr>"

text \<open>
  The sample that the \<open>j\<close>-th pass of the thresholded loop compares against the threshold,
  for a loop entered in state \<open>s\<close> (each pass consumes three raw samples).
\<close>

definition representative :: "inputs \<Rightarrow> machine \<Rightarrow> nat \<Rightarrow> long" where
  "representative inp s j = fst (median_pass 3 inp (s\<lparr>scale_reads := scale_reads s + 3 * j\<rparr>))"

text \<open>The sensor delivers the raw sample \<open>1\<close> (sign-corrected \<open>-1\<close>) for ever.\<close>

definition overflow_inputs :: inputs where
  "overflow_inputs = steady LOW HIGH 1 0"

text \<open>The sensor delivers the raw sample \<open>-1\<close> (sign-corrected \<open>1\<close>) for ever.\<close>

definition underflow_inputs :: inputs where
  "underflow_inputs = steady LOW HIGH (- 1) 0"

section \<open>Successive polls of the debouncer\<close>

text \<open>\<open>polls n\<close> calls \<^verbatim>\<open>DebounceSwitch()\<close> \<open>n\<close> times in a row and lists what the calls return.\<close>

fun polls :: "nat \<Rightarrow> inputs \<Rightarrow> machine \<Rightarrow> byte list \<times> machine" where
  "polls 0 inp s = ([], s)"
| "polls (Suc n) inp s =
     (let (r, s1) = DebounceSwitch inp s; (rs, s2) = polls n inp s1 in (r # rs, s2))"




text \<open>The dispense button is held for the first two reads and released from then on.\<close>

definition press_inputs :: inputs where
  "press_inputs = (steady HIGH HIGH 0 0)\<lparr>dispense_in := (\<lambda>k. if k < 2 then LOW else HIGH)\<rparr>"

text \<open>The part of the state that the waiting loops and the display leave alone.\<close>

definition globals :: "machine \<Rightarrow> long list \<times> byte \<times> cint \<times> eeprom_store \<times> nat" where
  "globals s = (val s, index s, selectedMode s, eeprom s, units_reads s)"

text \<open>
  Both buttons are held at power-up and released; the dispense button confirms preset 0;
  the mode button is then held for two reads, during which the samples are 1000 and 1001.
\<close>

definition calib_inputs :: inputs where
  "calib_inputs =
     \<lparr>dispense_in = (\<lambda>k. if k = 0 \<or> k = 2 then LOW else HIGH),
      mode_in = (\<lambda>k. if k = 0 \<or> k = 4 \<or> k = 5 then LOW else HIGH),
      scale_in = (\<lambda>k. 0), units_in = (\<lambda>k. 1000 + of_nat k)\<rparr>"

text \<open>
  The mode button is pressed and released three times (it reads held at its polls 1, 14
  and 27; poll 0 is the read in \<^verbatim>\<open>setup()\<close>), then the dispense button reads held once,
  at its read 41; every raw sample is 2, so every sign-corrected reading is \<open>-2\<close>.
\<close>

definition manual_inputs :: inputs where
  "manual_inputs =
     \<lparr>dispense_in = (\<lambda>k. if k = 41 then LOW else HIGH),
      mode_in = (\<lambda>k. if k = 1 \<or> k = 14 \<or> k = 27 then LOW else HIGH),
      scale_in = (\<lambda>k. 2), units_in = (\<lambda>k. 0)\<rparr>"

text \<open>The dispense button is held and every sign-corrected reading is 218000.\<close>

definition filling_inputs :: inputs where
  "filling_inputs = steady LOW HIGH (- 218000) 0"

section \<open>Properties of the sketch\<close>

subsection \<open>The bytes of a long\<close>

lemma masks32:
  "(0xFF :: 32 word) = mask 8" "(0xFFFF :: 32 word) = mask 16"
  "(0xFFFFFF :: 32 word) = mask 24" "(0xFFFFFFFF :: 32 word) = mask 32"
  by (simp_all add: mask_eq_exp_minus_1)

lemma ucast_down_add: "(ucast ((x :: 32 word) + y) :: 16 word) = ucast x + ucast y"
proof -
  have "(ucast (x + y) :: 16 word) = of_nat (unat (x + y))"
    by simp
  also have "\<dots> = of_nat ((unat x + unat y) mod 2 ^ 32)"
    by (simp add: unat_word_ariths)
  also have "\<dots> = of_nat (unat x + unat y)"
    by (rule word_of_nat_eq_iff [THEN iffD2]) (simp add: take_bit_eq_mod mod_mod_cancel)
  also have "\<dots> = ucast x + ucast y"
    by simp
  finally show ?thesis .
qed

lemma ucast_scast_16: "(ucast (scast (a :: 16 word) :: 32 word) :: 16 word) = a"
  by (rule bit_word_eqI) (auto simp add: bit_simps)

lemma addr_trunc:
  "(ucast ((scast (a :: 16 word) :: 32 word) + 1) :: 16 word) = a + 1"
  "(ucast ((scast (a :: 16 word) :: 32 word) + 2) :: 16 word) = a + 2"
  "(ucast ((scast (a :: 16 word) :: 32 word) + 3) :: 16 word) = a + 3"
  by (simp_all add: ucast_down_add ucast_scast_16)

lemma bytes_sum_or:
  fixes b0 b1 b2 b3 :: "8 word"
  shows "((push_bit 0 (ucast b0 :: 32 word) AND 0xFF) + (push_bit 8 (ucast b1) AND 0xFFFF)
         + (push_bit 16 (ucast b2) AND 0xFFFFFF) + (push_bit 24 (ucast b3) AND 0xFFFFFFFF))
       = (ucast b0 OR push_bit 8 (ucast b1) OR push_bit 16 (ucast b2) OR push_bit 24 (ucast b3))"
proof -
  have e0: "(push_bit 0 (ucast b0 :: 32 word) AND 0xFF) = ucast b0"
    by (rule bit_word_eqI) (auto simp add: bit_simps masks32 dest: bit_imp_le_length)
  have e1: "(push_bit 8 (ucast b1 :: 32 word) AND 0xFFFF) = push_bit 8 (ucast b1)"
    by (rule bit_word_eqI) (auto simp add: bit_simps masks32 dest: bit_imp_le_length)
  have e2: "(push_bit 16 (ucast b2 :: 32 word) AND 0xFFFFFF) = push_bit 16 (ucast b2)"
    by (rule bit_word_eqI) (auto simp add: bit_simps masks32 dest: bit_imp_le_length)
  have e3: "(push_bit 24 (ucast b3 :: 32 word) AND 0xFFFFFFFF) = push_bit 24 (ucast b3)"
    by (rule bit_word_eqI) (auto simp add: bit_simps masks32 dest: bit_imp_le_length)
  have d1: "(ucast b0 :: 32 word) + push_bit 8 (ucast b1) = ucast b0 OR push_bit 8 (ucast b1)"
    by (rule disjunctive_add_eq_or, rule bit_word_eqI)
      (auto simp add: bit_simps dest: bit_imp_le_length)
  have d2: "((ucast b0 OR push_bit 8 (ucast b1)) :: 32 word) + push_bit 16 (ucast b2)
      = (ucast b0 OR push_bit 8 (ucast b1)) OR push_bit 16 (ucast b2)"
    by (rule disjunctive_add_eq_or, rule bit_word_eqI)
      (auto simp add: bit_simps dest: bit_imp_le_length)
  have d3: "(((ucast b0 OR push_bit 8 (ucast b1)) OR push_bit 16 (ucast b2)) :: 32 word)
        + push_bit 24 (ucast b3)
      = ((ucast b0 OR push_bit 8 (ucast b1)) OR push_bit 16 (ucast b2)) OR push_bit 24 (ucast b3)"
    by (rule disjunctive_add_eq_or, rule bit_word_eqI)
      (auto simp add: bit_simps dest: bit_imp_le_length)
  show ?thesis
    unfolding e0 e1 e2 e3 d1 d2 d3 by (simp only: or.assoc)
qed

lemma bytes_join:
  fixes v :: "32 word"
  shows "(ucast (ucast (v AND 0xFF) :: 8 word) OR
     push_bit 8 (ucast (ucast (signed_drop_bit 8 v AND 0xFF) :: 8 word)) OR
     push_bit 16 (ucast (ucast (signed_drop_bit 16 v AND 0xFF) :: 8 word)) OR
     push_bit 24 (ucast (ucast (signed_drop_bit 24 v AND 0xFF) :: 8 word))) = v"
  (is "?lhs = v")
proof (rule bit_word_eqI)
  fix n :: nat
  assume "n < LENGTH(32)"
  then have "n < 8 \<or> (\<exists>m<8. n = 8 + m) \<or> (\<exists>m<8. n = 16 + m) \<or> (\<exists>m<8. n = 24 + m)"
    by simp presburger
  then consider "n < 8" | m where "n = 8 + m" "m < 8" | m where "n = 16 + m" "m < 8"
    | m where "n = 24 + m" "m < 8"
    by blast
  then show "bit ?lhs n = bit v n"
    by cases (simp_all add: bit_simps masks32)
qed

lemma bytes_sum_or_simplified:
  fixes b0 b1 b2 b3 :: "8 word"
  shows "(((ucast b0 :: 32 word) AND 0xFF) + (push_bit 8 (ucast b1) AND 0xFFFF)
         + (push_bit 16 (ucast b2) AND 0xFFFFFF) + (push_bit 24 (ucast b3) AND 0xFFFFFFFF))
       = (ucast b0 OR push_bit 8 (ucast b1) OR push_bit 16 (ucast b2) OR push_bit 24 (ucast b3))"
  using bytes_sum_or [of b0 b1 b2 b3] by simp

lemma EEPROM_roundtrip: "EEPROMRead (EEPROMWrite ee a v) (scast a) = v"
  by (simp add: EEPROMRead_def EEPROMWrite_def Let_def addr_trunc ucast_scast_16
      bytes_sum_or_simplified bytes_join)

lemma byte_of_long:
  fixes v :: "32 word"
  shows "(ucast (v AND 0xFF) :: 8 word) = ucast v"
    and "(ucast (signed_drop_bit 8 v AND 0xFF) :: 8 word) = ucast (drop_bit 8 v)"
    and "(ucast (signed_drop_bit 16 v AND 0xFF) :: 8 word) = ucast (drop_bit 16 v)"
    and "(ucast (signed_drop_bit 24 v AND 0xFF) :: 8 word) = ucast (drop_bit 24 v)"
proof -
  show "(ucast (v AND 0xFF) :: 8 word) = ucast v"
    by (rule bit_word_eqI) (simp add: bit_simps masks32)
  show "(ucast (signed_drop_bit 8 v AND 0xFF) :: 8 word) = ucast (drop_bit 8 v)"
    by (rule bit_word_eqI) (simp add: bit_simps masks32)
  show "(ucast (signed_drop_bit 16 v AND 0xFF) :: 8 word) = ucast (drop_bit 16 v)"
    by (rule bit_word_eqI) (simp add: bit_simps masks32)
  show "(ucast (signed_drop_bit 24 v AND 0xFF) :: 8 word) = ucast (drop_bit 24 v)"
    by (rule bit_word_eqI) (simp add: bit_simps masks32)
qed

lemma byte_of_shifted_long:
  fixes v :: "32 word"
  shows "(ucast (signed_drop_bit 8 v) :: 8 word) = ucast (drop_bit 8 v)"
    and "(ucast (signed_drop_bit 16 v) :: 8 word) = ucast (drop_bit 16 v)"
    and "(ucast (signed_drop_bit 24 v) :: 8 word) = ucast (drop_bit 24 v)"
proof -
  show "(ucast (signed_drop_bit 8 v) :: 8 word) = ucast (drop_bit 8 v)"
    by (rule bit_word_eqI) (simp add: bit_simps)
  show "(ucast (signed_drop_bit 16 v) :: 8 word) = ucast (drop_bit 16 v)"
    by (rule bit_word_eqI) (simp add: bit_simps)
  show "(ucast (signed_drop_bit 24 v) :: 8 word) = ucast (drop_bit 24 v)"
    by (rule bit_word_eqI) (simp add: bit_simps)
qed

lemma EEPROM_layout:
  "EEPROMWrite ee a v a = ucast v"
  "EEPROMWrite ee a v (a + 1) = ucast (drop_bit 8 v)"
  "EEPROMWrite ee a v (a + 2) = ucast (drop_bit 16 v)"
  "EEPROMWrite ee a v (a + 3) = ucast (drop_bit 24 v)"
  by (simp_all add: EEPROMWrite_def Let_def byte_of_long byte_of_shifted_long)

subsection \<open>The median pass\<close>

lemma upt_small: "[0..<3] = [0, 1, 2]" "[0..<2] = [0, 1]" "[0..<1] = [0]"
  by (simp_all add: upt_rec)

lemma rearrange_3:
  "rearrange 3 [a, b, c] =
     (let x = exchange [a, b, c] 0; y = exchange x 1 in exchange y 0)"
  by (simp add: rearrange_def upt_rec Let_def)

lemma rearrange_3_sorted:
  "sorted_wrt (\<lambda>x y. sint x \<le> sint y) (rearrange 3 [a, b, c])"
  by (simp add: rearrange_3 exchange_def Let_def)

lemma rearrange_3_mset: "mset (rearrange 3 [a, b, c]) = mset [a, b, c]"
  by (simp add: rearrange_3 exchange_def Let_def)

lemma rearrange_3_top:
  "sint (rearrange 3 [a, b, c] ! 2) = max (sint a) (max (sint b) (sint c))"
  by (simp add: rearrange_3 exchange_def Let_def)

lemma log_readings_3:
  "log_readings 3 inp s =
    ([- 1 * scale_in inp (scale_reads s), - 1 * scale_in inp (scale_reads s + 1),
      - 1 * scale_in inp (scale_reads s + 2)], s\<lparr>scale_reads := scale_reads s + 3\<rparr>)"
  by (simp add: log_readings_def upt_small)

lemma median_pass_3:
  "median_pass 3 inp s =
     (rearrange 3 [- 1 * scale_in inp (scale_reads s), - 1 * scale_in inp (scale_reads s + 1),
        - 1 * scale_in inp (scale_reads s + 2)] ! 2,
      s\<lparr>scale_reads := scale_reads s + 3\<rparr>)"
  by (simp add: median_pass_def log_readings_3)

lemma scenario_pass:
  "log_readings 3 scenario_inputs (power_up erased)
     = ([221000, 219000, 218500], (power_up erased)\<lparr>scale_reads := 3\<rparr>)"
  "rearrange 3 [221000, 219000, 218500] = [218500, 219000, 221000]"
  "median_pass 3 scenario_inputs (power_up erased)
     = (221000, (power_up erased)\<lparr>scale_reads := 3\<rparr>)"
  by (simp_all add: median_pass_3 log_readings_3 rearrange_3 exchange_def scenario_inputs_def
      steady_def power_up_def)

text \<open>
  Claim C1. In a pass of the thresholded loop, the three readings \<^verbatim>\<open>-1 * scale.read()\<close>
  are put in ascending (signed) order, and the sample that is compared against the
  threshold is element \<open>(3 + 1) div 2 = 2\<close> of the ordered array, that is, the largest
  of the three readings. It is not the median, which is element 1: on the readings
  221000, 219000, 218500 the pass yields 221000, and the median is 219000.
\<close>

theorem C1_representative_is_largest_reading:
  "(let readings = [- 1 * scale_in inp (scale_reads s), - 1 * scale_in inp (scale_reads s + 1),
                    - 1 * scale_in inp (scale_reads s + 2)];
        medianArray = rearrange 3 readings;
        medianValue = fst (median_pass 3 inp s)
    in fst (log_readings 3 inp s) = readings
       \<and> sorted_wrt (\<lambda>x y. sint x \<le> sint y) medianArray
       \<and> mset medianArray = mset readings
       \<and> (3 + 1) div 2 = (2 :: nat)
       \<and> medianValue = medianArray ! 2
       \<and> sint medianValue = max (sint (readings ! 0)) (max (sint (readings ! 1)) (sint (readings ! 2)))
       \<and> dispense_loop (Suc fuel) inp localVal s =
           (if sint (localVal - medianValue) > 0
            then dispense_loop fuel inp localVal (snd (median_pass 3 inp s))
            else Returned (snd (median_pass 3 inp s))))
   \<and> fst (median_pass 3 scenario_inputs (power_up erased)) = 221000
   \<and> rearrange 3 (fst (log_readings 3 scenario_inputs (power_up erased))) ! 1 = 219000"
proof -
  have pass: "dispense_loop (Suc fuel) inp localVal s =
      (if sint (localVal - fst (median_pass 3 inp s)) > 0
       then dispense_loop fuel inp localVal (snd (median_pass 3 inp s))
       else Returned (snd (median_pass 3 inp s)))"
    by (simp add: split_def Let_def)
  have scenario: "fst (median_pass 3 scenario_inputs (power_up erased)) = 221000"
    "rearrange 3 (fst (log_readings 3 scenario_inputs (power_up erased))) ! 1 = 219000"
    by (simp_all only: scenario_pass fst_conv) simp_all
  show ?thesis
    unfolding Let_def
    by (intro conjI pass scenario)
      (simp_all add: log_readings_3 median_pass_3 rearrange_3_sorted rearrange_3_mset
        rearrange_3_top)
qed

subsection \<open>The EEPROM\<close>

text \<open>
  Claim C3. For every 32-bit value \<open>v\<close> (negative ones and \<open>-1\<close> included) and every
  address \<open>a\<close>, \<^verbatim>\<open>EEPROMWrite(a, v)\<close> followed by \<^verbatim>\<open>EEPROMRead(a)\<close> returns \<open>v\<close>, and
  the four bytes are stored least significant first: bits 0 to 7 at \<open>a\<close>, bits 8 to 15 at
  \<open>a + 1\<close>, bits 16 to 23 at \<open>a + 2\<close>, bits 24 to 31 at \<open>a + 3\<close>.
\<close>

theorem C3_EEPROM_roundtrip_little_endian:
  "EEPROMRead (EEPROMWrite ee a v) (scast a) = v
   \<and> EEPROMWrite ee a v a = ucast v
   \<and> EEPROMWrite ee a v (a + 1) = ucast (drop_bit 8 v)
   \<and> EEPROMWrite ee a v (a + 2) = ucast (drop_bit 16 v)
   \<and> EEPROMWrite ee a v (a + 3) = ucast (drop_bit 24 v)"
  by (simp only: EEPROM_roundtrip EEPROM_layout simp_thms)

subsection \<open>The thresholded loop\<close>

lemma representative_0: "representative inp s 0 = fst (median_pass 3 inp s)"
  by (simp add: representative_def)

lemma representative_Suc:
  "representative inp (snd (median_pass 3 inp s)) j = representative inp s (Suc j)"
  by (simp add: representative_def median_pass_3 add.commute add.left_commute)

lemma snd_median_pass: "snd (median_pass 3 inp s) = s\<lparr>scale_reads := scale_reads s + 3\<rparr>"
  by (simp add: median_pass_3)

lemma dispense_loop_Suc:
  "dispense_loop (Suc fuel) inp localVal s =
      (if sint (localVal - representative inp s 0) > 0
       then dispense_loop fuel inp localVal (snd (median_pass 3 inp s))
       else Returned (snd (median_pass 3 inp s)))"
  by (simp add: split_def Let_def representative_0)

declare dispense_loop.simps [simp del]

lemma power_up_simps [simp]:
  "val (power_up ee) = [220000, 240000, 250000, - 1]" "index (power_up ee) = 0"
  "selectedMode (power_up ee) = 0" "State (power_up ee) = 0" "eeprom (power_up ee) = ee"
  "dispense_reads (power_up ee) = 0" "mode_reads (power_up ee) = 0"
  "scale_reads (power_up ee) = 0" "units_reads (power_up ee) = 0" "trace (power_up ee) = []"
  by (simp_all add: power_up_def)

lemma dispense_loop_0 [simp]: "dispense_loop 0 inp localVal s = Running s"
  by (simp add: dispense_loop.simps)

lemma dispense_loop_stops:
  "\<lbrakk>\<forall>j<k. sint (localVal - representative inp s j) > 0;
    \<not> sint (localVal - representative inp s k) > 0; k < fuel\<rbrakk>
   \<Longrightarrow> dispense_loop fuel inp localVal s = Returned (s\<lparr>scale_reads := scale_reads s + 3 * Suc k\<rparr>)"
proof (induction fuel arbitrary: s k)
  case 0
  then show ?case by simp
next
  case (Suc fuel)
  show ?case
  proof (cases k)
    case 0
    with Suc.prems show ?thesis
      by (simp only: dispense_loop_Suc snd_median_pass) simp
  next
    case (Suc k')
    from Suc.prems(1) Suc have first: "sint (localVal - representative inp s 0) > 0"
      by simp
    have rest: "\<forall>j<k'. sint (localVal - representative inp (snd (median_pass 3 inp s)) j) > 0"
      using Suc.prems(1) Suc by (simp add: representative_Suc)
    have last: "\<not> sint (localVal - representative inp (snd (median_pass 3 inp s)) k') > 0"
      using Suc.prems(2) Suc by (simp add: representative_Suc)
    have "k' < fuel" using Suc.prems(3) Suc by simp
    from Suc.IH [OF rest last this] first Suc show ?thesis
      by (simp only: dispense_loop_Suc snd_median_pass) (simp add: add.commute)
  qed
qed

lemma dispense_loop_runs:
  "\<forall>j<fuel. sint (localVal - representative inp s j) > 0
   \<Longrightarrow> dispense_loop fuel inp localVal s = Running (s\<lparr>scale_reads := scale_reads s + 3 * fuel\<rparr>)"
proof (induction fuel arbitrary: s)
  case 0
  then show ?case by simp
next
  case (Suc fuel)
  from Suc.prems have first: "sint (localVal - representative inp s 0) > 0"
    by simp
  have rest: "\<forall>j<fuel. sint (localVal - representative inp (snd (median_pass 3 inp s)) j) > 0"
    using Suc.prems by (simp add: representative_Suc)
  from Suc.IH [OF rest] first show ?case
    by (simp only: dispense_loop_Suc snd_median_pass) (simp add: add.commute)
qed

lemma difference_test:
  fixes t r :: "32 word"
  assumes "- (2 ^ 31) \<le> sint t - sint r" "sint t - sint r < 2 ^ 31"
  shows "(sint (t - r) > 0) = (sint r < sint t)"
proof -
  have "sint (t - r) = signed_take_bit 31 (sint t - sint r)"
    by (simp add: sint_word_ariths)
  also have "\<dots> = sint t - sint r"
    using assms by (simp add: signed_take_bit_int_eq_self)
  finally show ?thesis by simp
qed


lemma control_thresholded:
  "localVal \<noteq> - 1 \<Longrightarrow>
   control fuel inp localVal s =
     and_then (dispense_loop fuel inp localVal s)
       (\<lambda>s1. Returned (updateMode (ucast (index s1))
                (emit [DigitalWrite LED_BUILTIN LOW, DigitalWrite RELAY_PIN LOW, Lcd_clear] s1)))"
  by (simp add: control_def)

lemma scenario_representative:
  "representative scenario_inputs (power_up erased) j = 221000"
  by (simp add: representative_def median_pass_3 rearrange_3 exchange_def scenario_inputs_def
      steady_def power_up_def Let_def)

text \<open>
  Claim C2, amended. For every threshold \<open>t \<noteq> -1\<close> and all passes whose representative
  \<open>r\<close> is such that the 32-bit difference \<open>t - r\<close> does not overflow: the test
  \<^verbatim>\<open>localVal - medianValue > 0\<close> of the loop holds exactly when \<open>r < t\<close>; the loop stops
  at the first pass whose representative reaches or exceeds \<open>t\<close> (and \<^verbatim>\<open>control\<close> then
  switches the relay off and returns), and it is still running after any number of
  passes that all stay below \<open>t\<close>. With \<open>t = 220000\<close> and readings that sort to
  218500, 219000, 221000 the representative is 221000 and the loop stops after that pass.
\<close>

theorem C2_loop_stops_at_first_pass_reaching_threshold:
  assumes "localVal \<noteq> - 1"
    and "\<forall>j\<le>k. - (2 ^ 31) \<le> sint localVal - sint (representative inp s j)
                \<and> sint localVal - sint (representative inp s j) < 2 ^ 31"
  shows "(\<forall>j\<le>k. (sint (localVal - representative inp s j) > 0)
                 = (sint (representative inp s j) < sint localVal))
    \<and> ((\<forall>j<k. sint (representative inp s j) < sint localVal)
         \<and> sint localVal \<le> sint (representative inp s k) \<and> k < fuel
       \<longrightarrow> dispense_loop fuel inp localVal s
             = Returned (s\<lparr>scale_reads := scale_reads s + 3 * Suc k\<rparr>)
           \<and> control fuel inp localVal s
             = Returned (updateMode (ucast (index s))
                 (emit [DigitalWrite LED_BUILTIN LOW, DigitalWrite RELAY_PIN LOW, Lcd_clear]
                    (s\<lparr>scale_reads := scale_reads s + 3 * Suc k\<rparr>))))
    \<and> ((\<forall>j<fuel. sint (representative inp s j) < sint localVal) \<and> fuel \<le> Suc k
       \<longrightarrow> dispense_loop fuel inp localVal s
             = Running (s\<lparr>scale_reads := scale_reads s + 3 * fuel\<rparr>)
           \<and> control fuel inp localVal s
             = Running (s\<lparr>scale_reads := scale_reads s + 3 * fuel\<rparr>))
    \<and> representative scenario_inputs (power_up erased) 0 = 221000
    \<and> control (Suc fuel) scenario_inputs 220000 (power_up erased)
        = Returned (updateMode 0
            (emit [DigitalWrite LED_BUILTIN LOW, DigitalWrite RELAY_PIN LOW, Lcd_clear]
               ((power_up erased)\<lparr>scale_reads := 3\<rparr>)))"
proof -
  have test: "(sint (localVal - representative inp s j) > 0)
      = (sint (representative inp s j) < sint localVal)" if "j \<le> k" for j
    using assms(2) that by (intro difference_test) auto
  have stops: "dispense_loop fuel inp localVal s
      = Returned (s\<lparr>scale_reads := scale_reads s + 3 * Suc k\<rparr>)"
    if "\<forall>j<k. sint (representative inp s j) < sint localVal"
      "sint localVal \<le> sint (representative inp s k)" "k < fuel"
    using that by (intro dispense_loop_stops) (auto simp add: test)
  have runs: "dispense_loop fuel inp localVal s
      = Running (s\<lparr>scale_reads := scale_reads s + 3 * fuel\<rparr>)"
    if "\<forall>j<fuel. sint (representative inp s j) < sint localVal" "fuel \<le> Suc k"
    using that by (intro dispense_loop_runs) (auto simp add: test)
  have scenario: "control (Suc fuel) scenario_inputs 220000 (power_up erased)
        = Returned (updateMode 0
            (emit [DigitalWrite LED_BUILTIN LOW, DigitalWrite RELAY_PIN LOW, Lcd_clear]
               ((power_up erased)\<lparr>scale_reads := 3\<rparr>)))"
    by (simp add: control_def and_then_def dispense_loop_Suc scenario_representative
        snd_median_pass)
  show ?thesis
    using assms(1) test stops runs scenario
    by (simp add: control_thresholded and_then_def scenario_representative)
qed

theorem C2_loop_stops_witness:
  "(220000 :: long) \<noteq> - 1
   \<and> sint (220000 :: long) \<le> sint (representative scenario_inputs (power_up erased) 0)
   \<and> dispense_loop 1 scenario_inputs 220000 (power_up erased)
       = Returned ((power_up erased)\<lparr>scale_reads := 3\<rparr>)
   \<and> (230000 :: long) \<noteq> - 1
   \<and> sint (representative scenario_inputs (power_up erased) 0) < sint (230000 :: long)
   \<and> sint (representative scenario_inputs (power_up erased) 1) < sint (230000 :: long)
   \<and> dispense_loop 2 scenario_inputs 230000 (power_up erased)
       = Running ((power_up erased)\<lparr>scale_reads := 6\<rparr>)"
  using C2_loop_stops_at_first_pass_reaching_threshold
          [of 220000 0 scenario_inputs "power_up erased" 1]
        C2_loop_stops_at_first_pass_reaching_threshold
          [of 230000 1 scenario_inputs "power_up erased" 2]
  by (simp add: scenario_representative)

text \<open>
  Where the difference overflows, the test and the comparison differ: with the threshold
  \<open>2147483647\<close> and readings \<open>-1\<close> the loop stops after one pass although the
  representative is below the threshold; with the threshold \<open>-2147483648\<close> and readings
  \<open>1\<close> the loop goes on although the representative exceeds the threshold.
\<close>

theorem C2_difference_overflow_counterexample:
  "sint (representative overflow_inputs (power_up erased) 0) < sint (2147483647 :: long)
   \<and> dispense_loop 1 overflow_inputs 2147483647 (power_up erased)
       = Returned ((power_up erased)\<lparr>scale_reads := 3\<rparr>)
   \<and> sint (- 2147483648 :: long) \<le> sint (representative underflow_inputs (power_up erased) 0)
   \<and> dispense_loop 1 underflow_inputs (- 2147483648) (power_up erased)
       = Running ((power_up erased)\<lparr>scale_reads := 3\<rparr>)"
  by (simp add: dispense_loop_Suc snd_median_pass)
    (simp add: representative_def median_pass_3 rearrange_3 exchange_def overflow_inputs_def
      underflow_inputs_def steady_def Let_def)

subsection \<open>The mode index\<close>

lemma next_index_cases:
  "next_index 0 = 1" "next_index 1 = 2" "next_index 2 = 3" "next_index 3 = 0"
  by (simp_all add: next_index_def)

lemma next_index_le: "next_index i \<le> 3"
  by (simp add: next_index_def Let_def not_less)

lemma next_index_funpow: "(next_index ^^ n) 0 = of_nat (n mod 4)"
proof (induction n)
  case 0
  then show ?case by simp
next
  case (Suc n)
  have "n mod 4 = 0 \<or> n mod 4 = 1 \<or> n mod 4 = 2 \<or> n mod 4 = 3"
    by presburger
  moreover have "n mod 4 = 0 \<Longrightarrow> Suc n mod 4 = 1" "n mod 4 = 1 \<Longrightarrow> Suc n mod 4 = 2"
    "n mod 4 = 2 \<Longrightarrow> Suc n mod 4 = 3" "n mod 4 = 3 \<Longrightarrow> Suc n mod 4 = 0"
    by presburger+
  ultimately show ?case
    using Suc.IH by (auto simp add: next_index_cases)
qed

subsection \<open>Frames\<close>

lemma emit_sel [simp]:
  "val (emit evs s) = val s" "index (emit evs s) = index s"
  "selectedMode (emit evs s) = selectedMode s" "State (emit evs s) = State s"
  "eeprom (emit evs s) = eeprom s" "dispense_reads (emit evs s) = dispense_reads s"
  "mode_reads (emit evs s) = mode_reads s" "scale_reads (emit evs s) = scale_reads s"
  "units_reads (emit evs s) = units_reads s" "trace (emit evs s) = trace s @ evs"
  by (simp_all add: emit_def)

lemma updateMode_sel [simp]:
  "val (updateMode i s) = val s" "index (updateMode i s) = index s"
  "selectedMode (updateMode i s) = selectedMode s" "State (updateMode i s) = State s"
  "eeprom (updateMode i s) = eeprom s" "dispense_reads (updateMode i s) = dispense_reads s"
  "mode_reads (updateMode i s) = mode_reads s" "scale_reads (updateMode i s) = scale_reads s"
  "units_reads (updateMode i s) = units_reads s"
  by (simp_all add: updateMode_def)


lemma wait_release_Suc:
  "wait_release (Suc fuel) inp s =
     (if dispense_in inp (dispense_reads s) = LOW
      then wait_release fuel inp (s\<lparr>dispense_reads := Suc (dispense_reads s)\<rparr>)
      else Returned (s\<lparr>dispense_reads := Suc (dispense_reads s)\<rparr>))"
  by (simp add: digitalRead_DISPENSE_def)

declare wait_release.simps(2) [simp del]

lemma wait_release_stops:
  "\<lbrakk>\<forall>j<k. dispense_in inp (dispense_reads s + j) = LOW;
    dispense_in inp (dispense_reads s + k) = HIGH; k < fuel\<rbrakk>
   \<Longrightarrow> wait_release fuel inp s = Returned (s\<lparr>dispense_reads := dispense_reads s + Suc k\<rparr>)"
proof (induction fuel arbitrary: s k)
  case 0
  then show ?case by simp
next
  case (Suc fuel)
  show ?case
  proof (cases k)
    case 0
    with Suc.prems show ?thesis
      by (simp add: wait_release_Suc)
  next
    case (Suc k')
    let ?s1 = "s\<lparr>dispense_reads := Suc (dispense_reads s)\<rparr>"
    from Suc.prems(1) Suc have first: "dispense_in inp (dispense_reads s) = LOW"
      by auto
    have rest: "\<forall>j<k'. dispense_in inp (dispense_reads ?s1 + j) = LOW"
      using Suc.prems(1) Suc by auto
    have last: "dispense_in inp (dispense_reads ?s1 + k') = HIGH"
      using Suc.prems(2) Suc by simp
    have "k' < fuel" using Suc.prems(3) Suc by simp
    from Suc.IH [OF rest last this] first Suc show ?thesis
      by (simp add: wait_release_Suc)
  qed
qed

lemma wait_release_runs:
  "\<forall>j<fuel. dispense_in inp (dispense_reads s + j) = LOW
   \<Longrightarrow> wait_release fuel inp s = Running (s\<lparr>dispense_reads := dispense_reads s + fuel\<rparr>)"
proof (induction fuel arbitrary: s)
  case 0
  then show ?case by simp
next
  case (Suc fuel)
  let ?s1 = "s\<lparr>dispense_reads := Suc (dispense_reads s)\<rparr>"
  from Suc.prems have first: "dispense_in inp (dispense_reads s) = LOW"
    by auto
  have rest: "\<forall>j<fuel. dispense_in inp (dispense_reads ?s1 + j) = LOW"
    using Suc.prems by auto
  from Suc.IH [OF rest] first show ?case
    by (simp add: wait_release_Suc)
qed

text \<open>Every run of the loop is one of the two.\<close>

lemma pin_level_neq [simp]: "(l \<noteq> LOW) = (l = HIGH)" "(l \<noteq> HIGH) = (l = LOW)"
  by (cases l; simp)+

lemma wait_release_cases:
  "(\<exists>k<fuel. (\<forall>j<k. dispense_in inp (dispense_reads s + j) = LOW)
        \<and> dispense_in inp (dispense_reads s + k) = HIGH
        \<and> wait_release fuel inp s = Returned (s\<lparr>dispense_reads := dispense_reads s + Suc k\<rparr>))
   \<or> ((\<forall>j<fuel. dispense_in inp (dispense_reads s + j) = LOW)
        \<and> wait_release fuel inp s = Running (s\<lparr>dispense_reads := dispense_reads s + fuel\<rparr>))"
proof (cases "\<forall>j<fuel. dispense_in inp (dispense_reads s + j) = LOW")
  case True
  then show ?thesis by (simp add: wait_release_runs)
next
  case False
  define k where "k = (LEAST j. dispense_in inp (dispense_reads s + j) \<noteq> LOW)"
  from False obtain j0 where j0: "j0 < fuel" "dispense_in inp (dispense_reads s + j0) \<noteq> LOW"
    by auto
  have k1: "dispense_in inp (dispense_reads s + k) \<noteq> LOW"
    unfolding k_def using j0(2) by (rule LeastI)
  have k2: "\<forall>j<k. dispense_in inp (dispense_reads s + j) = LOW"
    unfolding k_def using not_less_Least by blast
  have "k \<le> j0" unfolding k_def using j0(2) by (rule Least_le)
  with j0 have k3: "k < fuel" by simp
  from k1 have k1': "dispense_in inp (dispense_reads s + k) = HIGH" by simp
  from wait_release_stops [OF k2 k1' k3] k1' k2 k3 show ?thesis by blast
qed

lemma dispense_loop_cases:
  "(\<exists>k<fuel. (\<forall>j<k. sint (localVal - representative inp s j) > 0)
        \<and> \<not> sint (localVal - representative inp s k) > 0
        \<and> dispense_loop fuel inp localVal s = Returned (s\<lparr>scale_reads := scale_reads s + 3 * Suc k\<rparr>))
   \<or> ((\<forall>j<fuel. sint (localVal - representative inp s j) > 0)
        \<and> dispense_loop fuel inp localVal s = Running (s\<lparr>scale_reads := scale_reads s + 3 * fuel\<rparr>))"
proof (cases "\<forall>j<fuel. sint (localVal - representative inp s j) > 0")
  case True
  then show ?thesis by (simp add: dispense_loop_runs)
next
  case False
  define k where "k = (LEAST j. \<not> sint (localVal - representative inp s j) > 0)"
  from False obtain j0 where j0: "j0 < fuel" "\<not> sint (localVal - representative inp s j0) > 0"
    by auto
  have k1: "\<not> sint (localVal - representative inp s k) > 0"
    unfolding k_def using j0(2) by (rule LeastI)
  have k2: "\<forall>j<k. sint (localVal - representative inp s j) > 0"
    unfolding k_def using not_less_Least by blast
  have "k \<le> j0" unfolding k_def using j0(2) by (rule Least_le)
  with j0 have k3: "k < fuel" by simp
  from dispense_loop_stops [OF k2 k1 k3] k1 k2 k3 show ?thesis by blast
qed

subsection \<open>control\<close>

lemma and_then_simps [simp]:
  "and_then (Returned x) f = f x" "and_then (Running s) f = Running s" "and_then Fault f = Fault"
  by (simp_all add: and_then_def)

lemma updateMode_trace:
  "\<exists>evs. trace (updateMode i s) = trace s @ evs \<and> DigitalWrite RELAY_PIN HIGH \<notin> set evs"
  by (simp add: updateMode_def)

text \<open>What \<open>control\<close> does after its loop.\<close>

lemma control_manual:
  "control fuel inp (- 1) s =
     and_then
       (wait_release fuel inp
          (emit [Lcd_clear, Lcd_setCursor 0 0, Lcd_print ''Manual mode'',
                 Lcd_setCursor 0 1, Lcd_print ''Dispensing''] s))
       (\<lambda>s1. Returned (updateMode (ucast (index s1))
                (emit [DigitalWrite LED_BUILTIN LOW, DigitalWrite RELAY_PIN LOW, Lcd_clear] s1)))"
  by (simp add: control_def)

lemma control_outcome:
  assumes "control fuel inp localVal s = Returned s' \<or> control fuel inp localVal s = Running s'"
  shows "val s' = val s \<and> index s' = index s \<and> selectedMode s' = selectedMode s
     \<and> eeprom s' = eeprom s \<and> State s' = State s \<and> mode_reads s' = mode_reads s
     \<and> units_reads s' = units_reads s
     \<and> (\<exists>evs. trace s' = trace s @ evs \<and> DigitalWrite RELAY_PIN HIGH \<notin> set evs)"
proof (cases "localVal = - 1")
  case True
  from wait_release_cases [of fuel inp "emit [Lcd_clear, Lcd_setCursor 0 0, Lcd_print ''Manual mode'',
                 Lcd_setCursor 0 1, Lcd_print ''Dispensing''] s"] assms True
  show ?thesis
    by (auto simp add: control_manual updateMode_def)
next
  case False
  from dispense_loop_cases [of fuel localVal inp s] assms False
  show ?thesis
    by (auto simp add: control_thresholded updateMode_def)
qed

lemma control_not_Fault: "control fuel inp localVal s \<noteq> Fault"
proof (cases "localVal = - 1")
  case True
  from wait_release_cases [of fuel inp "emit [Lcd_clear, Lcd_setCursor 0 0, Lcd_print ''Manual mode'',
                 Lcd_setCursor 0 1, Lcd_print ''Dispensing''] s"] True
  show ?thesis
    by (auto simp add: control_manual)
next
  case False
  from dispense_loop_cases [of fuel localVal inp s] False
  show ?thesis
    by (auto simp add: control_thresholded)
qed

subsection \<open>One iteration of loop\<close>

lemma DebounceSwitch_eq:
  "DebounceSwitch inp s =
     (if next_State (State s) (mode_in inp (mode_reads s)) = 0xf000 then 1 else 0,
      s\<lparr>mode_reads := Suc (mode_reads s),
        State := next_State (State s) (mode_in inp (mode_reads s))\<rparr>)"
  by (simp add: DebounceSwitch_def digitalRead_MODE_def Let_def)

lemma after_reads:
  "snd (digitalRead_DISPENSE inp (snd (scale_read inp (snd (DebounceSwitch inp s))))) =
     s\<lparr>mode_reads := Suc (mode_reads s),
       State := next_State (State s) (mode_in inp (mode_reads s)),
       scale_reads := Suc (scale_reads s), dispense_reads := Suc (dispense_reads s)\<rparr>"
  by (simp add: DebounceSwitch_eq scale_read_def digitalRead_DISPENSE_def)

lemma loop_eq:
  assumes "array_read (val s) (uint (index s)) = Some threshold"
  shows "loop fuel inp s =
     and_then
       (if dispense_in inp (dispense_reads s) = LOW
           \<and> sint (scale_in inp (scale_reads s) * - 1) < sint threshold
        then control fuel inp threshold
               (emit [Lcd_clear, Lcd_setCursor 0 0, Lcd_print ''Dispensing'', Lcd_setCursor 0 1,
                      Lcd_print_num (map_option sint (array_read VOLUME (uint (index s)))),
                      Lcd_print ''               '', DigitalWrite LED_BUILTIN HIGH,
                      DigitalWrite RELAY_PIN HIGH]
                  (snd (digitalRead_DISPENSE inp (snd (scale_read inp (snd (DebounceSwitch inp s)))))))
        else Returned (snd (digitalRead_DISPENSE inp (snd (scale_read inp (snd (DebounceSwitch inp s)))))))
       (\<lambda>s4. Returned
          (if fst (DebounceSwitch inp s) = 1
           then updateMode (ucast (next_index (index s4))) (s4\<lparr>index := next_index (index s4)\<rparr>)
           else s4))"
  using assms
  by (simp add: loop_def DebounceSwitch_eq scale_read_def digitalRead_DISPENSE_def Let_def)

lemma loop_Fault:
  "array_read (val s) (uint (index s)) = None \<Longrightarrow> loop fuel inp s = Fault"
  by (simp add: loop_def DebounceSwitch_eq scale_read_def digitalRead_DISPENSE_def Let_def)



lemma loop_step:
  assumes thr: "array_read (val s) (uint (index s)) = Some threshold"
    and out: "loop fuel inp s = Returned s' \<or> loop fuel inp s = Running s'"
  shows "\<exists>s4 evs.
      val s4 = val s \<and> index s4 = index s \<and> selectedMode s4 = selectedMode s
      \<and> eeprom s4 = eeprom s \<and> units_reads s4 = units_reads s
      \<and> State s4 = next_State (State s) (mode_in inp (mode_reads s))
      \<and> mode_reads s4 = Suc (mode_reads s)
      \<and> trace s4 = trace s @ evs
      \<and> (DigitalWrite RELAY_PIN HIGH \<in> set evs
          \<longleftrightarrow> dispense_in inp (dispense_reads s) = LOW
              \<and> sint (scale_in inp (scale_reads s) * - 1) < sint threshold)
      \<and> (loop fuel inp s = Running s' \<longrightarrow> s' = s4)
      \<and> (loop fuel inp s = Returned s' \<longrightarrow> s' =
           (if fst (DebounceSwitch inp s) = 1
            then updateMode (ucast (next_index (index s4))) (s4\<lparr>index := next_index (index s4)\<rparr>)
            else s4))"
proof (cases "dispense_in inp (dispense_reads s) = LOW
           \<and> sint (scale_in inp (scale_reads s) * - 1) < sint threshold")
  case False
  let ?s3 = "s\<lparr>mode_reads := Suc (mode_reads s),
            State := next_State (State s) (mode_in inp (mode_reads s)),
            scale_reads := Suc (scale_reads s), dispense_reads := Suc (dispense_reads s)\<rparr>"
  have eq: "loop fuel inp s = Returned
           (if fst (DebounceSwitch inp s) = 1
            then updateMode (ucast (next_index (index ?s3))) (?s3\<lparr>index := next_index (index ?s3)\<rparr>)
            else ?s3)"
    unfolding loop_eq [OF thr] if_not_P [OF False] after_reads by simp
  show ?thesis
    apply (rule exI [of _ ?s3], rule exI [of _ "[]"])
    using out False unfolding eq by simp
next
  case True
  let ?evs = "[Lcd_clear, Lcd_setCursor 0 0, Lcd_print ''Dispensing'', Lcd_setCursor 0 1,
                      Lcd_print_num (map_option sint (array_read VOLUME (uint (index s)))),
                      Lcd_print ''               '', DigitalWrite LED_BUILTIN HIGH,
                      DigitalWrite RELAY_PIN HIGH]"
  let ?s3 = "emit ?evs
         (s\<lparr>mode_reads := Suc (mode_reads s),
            State := next_State (State s) (mode_in inp (mode_reads s)),
            scale_reads := Suc (scale_reads s), dispense_reads := Suc (dispense_reads s)\<rparr>)"
  have eq: "loop fuel inp s = and_then (control fuel inp threshold ?s3)
       (\<lambda>s4. Returned
          (if fst (DebounceSwitch inp s) = 1
           then updateMode (ucast (next_index (index s4))) (s4\<lparr>index := next_index (index s4)\<rparr>)
           else s4))"
    unfolding loop_eq [OF thr] if_P [OF True] after_reads by simp
  obtain s4 where c: "control fuel inp threshold ?s3 = Returned s4
      \<or> control fuel inp threshold ?s3 = Running s4"
    using control_not_Fault [of fuel inp threshold ?s3]
    by (cases "control fuel inp threshold ?s3") auto
  from control_outcome [OF c] obtain evs' where
    f: "val s4 = val ?s3" "index s4 = index ?s3" "selectedMode s4 = selectedMode ?s3"
      "eeprom s4 = eeprom ?s3" "State s4 = State ?s3" "mode_reads s4 = mode_reads ?s3"
      "units_reads s4 = units_reads ?s3" "trace s4 = trace ?s3 @ evs'"
    by blast
  have run: "loop fuel inp s = Running s' \<longrightarrow> s' = s4"
    using c unfolding eq by auto
  have ret: "loop fuel inp s = Returned s' \<longrightarrow> s' =
           (if fst (DebounceSwitch inp s) = 1
            then updateMode (ucast (next_index (index s4))) (s4\<lparr>index := next_index (index s4)\<rparr>)
            else s4)"
    using c unfolding eq by auto
  show ?thesis
    apply (rule exI [of _ s4], rule exI [of _ "?evs @ evs'"])
    using f run ret True by simp
qed

subsection \<open>The debouncer\<close>










lemma polls_Suc:
  "polls (Suc n) inp s =
     ((if next_State (State s) (mode_in inp (mode_reads s)) = 0xf000 then 1 else 0)
        # fst (polls n inp (snd (DebounceSwitch inp s))),
      snd (polls n inp (snd (DebounceSwitch inp s))))"
  by (simp add: DebounceSwitch_eq split_def Let_def)

declare polls.simps(2) [simp del]


lemma snd_DebounceSwitch [simp]:
  "State (snd (DebounceSwitch inp s)) = next_State (State s) (mode_in inp (mode_reads s))"
  "mode_reads (snd (DebounceSwitch inp s)) = Suc (mode_reads s)"
  by (simp_all add: DebounceSwitch_eq)









subsection \<open>Manual dispensing\<close>

lemma wait_release_sensor:
  "wait_release fuel (inp\<lparr>scale_in := f\<rparr>) s = wait_release fuel inp s"
  by (induction fuel arbitrary: s) (simp_all add: wait_release_Suc)

lemma control_manual_sensor:
  "control fuel (inp\<lparr>scale_in := f\<rparr>) (- 1) s = control fuel inp (- 1) s"
  by (simp add: control_manual wait_release_sensor)

lemma control_manual_cases:
  "(\<exists>k<fuel. (\<forall>j<k. dispense_in inp (dispense_reads s + j) = LOW)
        \<and> dispense_in inp (dispense_reads s + k) = HIGH
        \<and> (\<exists>s'. control fuel inp (- 1) s = Returned s'
              \<and> dispense_reads s' = dispense_reads s + Suc k \<and> scale_reads s' = scale_reads s))
   \<or> ((\<forall>j<fuel. dispense_in inp (dispense_reads s + j) = LOW)
        \<and> (\<exists>s'. control fuel inp (- 1) s = Running s'
              \<and> dispense_reads s' = dispense_reads s + fuel \<and> scale_reads s' = scale_reads s
              \<and> trace s' = trace s @ [Lcd_clear, Lcd_setCursor 0 0, Lcd_print ''Manual mode'',
                   Lcd_setCursor 0 1, Lcd_print ''Dispensing'']))"
  using wait_release_cases [of fuel inp "emit [Lcd_clear, Lcd_setCursor 0 0,
      Lcd_print ''Manual mode'', Lcd_setCursor 0 1, Lcd_print ''Dispensing''] s"]
  by (auto simp add: control_manual)

text \<open>
  Claim C4. \<^verbatim>\<open>control(-1)\<close> does not depend on the weight sensor: it returns the same
  outcome for every sequence of samples and consumes no sample. When it returns, the read
  of the dispense button that ended it was \<open>HIGH\<close> (released) and all reads before it
  were \<open>LOW\<close>. If the button never reads released, then for every bound on the number of
  iterations the function is still in its loop, and it has not switched the relay off.
  If the button reads released at the \<open>k\<close>-th read, the function returns after that read.
\<close>

theorem C4_manual_dispense_waits_for_release:
  "control fuel (inp\<lparr>scale_in := f\<rparr>) (- 1) s = control fuel inp (- 1) s
   \<and> (\<forall>s'. control fuel inp (- 1) s = Returned s' \<or> control fuel inp (- 1) s = Running s'
         \<longrightarrow> scale_reads s' = scale_reads s)
   \<and> (\<forall>s'. control fuel inp (- 1) s = Returned s'
         \<longrightarrow> (\<exists>k<fuel. (\<forall>j<k. dispense_in inp (dispense_reads s + j) = LOW)
                \<and> dispense_in inp (dispense_reads s + k) = HIGH
                \<and> dispense_reads s' = dispense_reads s + Suc k))
   \<and> ((\<forall>j. dispense_in inp (dispense_reads s + j) = LOW)
         \<longrightarrow> (\<exists>s'. control fuel inp (- 1) s = Running s'
                \<and> DigitalWrite RELAY_PIN LOW \<notin> set (drop (length (trace s)) (trace s'))))
   \<and> ((\<forall>j<k. dispense_in inp (dispense_reads s + j) = LOW)
        \<and> dispense_in inp (dispense_reads s + k) = HIGH \<and> k < fuel
         \<longrightarrow> (\<exists>s'. control fuel inp (- 1) s = Returned s'
                \<and> dispense_reads s' = dispense_reads s + Suc k))"
proof (intro conjI allI impI)
  show "control fuel (inp\<lparr>scale_in := f\<rparr>) (- 1) s = control fuel inp (- 1) s"
    by (rule control_manual_sensor)
next
  fix s'
  assume "control fuel inp (- 1) s = Returned s' \<or> control fuel inp (- 1) s = Running s'"
  with control_manual_cases [of fuel inp s] show "scale_reads s' = scale_reads s"
    by auto
next
  fix s'
  assume "control fuel inp (- 1) s = Returned s'"
  with control_manual_cases [of fuel inp s]
  show "\<exists>k<fuel. (\<forall>j<k. dispense_in inp (dispense_reads s + j) = LOW)
                \<and> dispense_in inp (dispense_reads s + k) = HIGH
                \<and> dispense_reads s' = dispense_reads s + Suc k"
    by auto
next
  assume a: "\<forall>j. dispense_in inp (dispense_reads s + j) = LOW"
  with control_manual_cases [of fuel inp s]
  show "\<exists>s'. control fuel inp (- 1) s = Running s'
                \<and> DigitalWrite RELAY_PIN LOW \<notin> set (drop (length (trace s)) (trace s'))"
    by auto
next
  assume a: "(\<forall>j<k. dispense_in inp (dispense_reads s + j) = LOW)
        \<and> dispense_in inp (dispense_reads s + k) = HIGH \<and> k < fuel"
  then have "wait_release fuel inp (emit [Lcd_clear, Lcd_setCursor 0 0,
      Lcd_print ''Manual mode'', Lcd_setCursor 0 1, Lcd_print ''Dispensing''] s)
     = Returned ((emit [Lcd_clear, Lcd_setCursor 0 0,
      Lcd_print ''Manual mode'', Lcd_setCursor 0 1, Lcd_print ''Dispensing''] s)
        \<lparr>dispense_reads := dispense_reads s + Suc k\<rparr>)"
    using wait_release_stops [of k inp "emit [Lcd_clear, Lcd_setCursor 0 0,
      Lcd_print ''Manual mode'', Lcd_setCursor 0 1, Lcd_print ''Dispensing''] s" fuel]
    by simp
  then show "\<exists>s'. control fuel inp (- 1) s = Returned s'
                \<and> dispense_reads s' = dispense_reads s + Suc k"
    by (simp add: control_manual)
qed

theorem C4_manual_dispense_witness:
  "(\<forall>j. dispense_in (steady LOW HIGH 0 0) (dispense_reads (power_up erased) + j) = LOW)
   \<and> (\<exists>s'. control 9 (steady LOW HIGH 0 0) (- 1) (power_up erased) = Running s')
   \<and> dispense_in press_inputs (dispense_reads (power_up erased) + 0) = LOW
   \<and> dispense_in press_inputs (dispense_reads (power_up erased) + 1) = LOW
   \<and> dispense_in press_inputs (dispense_reads (power_up erased) + 2) = HIGH \<and> (2 :: nat) < 9
   \<and> (\<exists>s'. control 9 press_inputs (- 1) (power_up erased) = Returned s'
          \<and> dispense_reads s' = 3)"
  using C4_manual_dispense_waits_for_release
      [where fuel = 9 and inp = "steady LOW HIGH 0 0" and f = "scale_in press_inputs"
         and s = "power_up erased" and k = 0]
    C4_manual_dispense_waits_for_release
      [where fuel = 9 and inp = press_inputs and f = "scale_in press_inputs"
         and s = "power_up erased" and k = 2]
  by (simp add: steady_def press_inputs_def) blast

subsection \<open>selection and calibrateFunction\<close>

lemma globals_eq:
  "globals s' = globals s \<longleftrightarrow>
     val s' = val s \<and> index s' = index s \<and> selectedMode s' = selectedMode s
     \<and> eeprom s' = eeprom s \<and> units_reads s' = units_reads s"
  by (auto simp add: globals_def)

lemma globals_simps [simp]:
  "globals (emit evs s) = globals s" "globals (updateMode i s) = globals s"
  "globals (s\<lparr>dispense_reads := d\<rparr>) = globals s" "globals (s\<lparr>mode_reads := m\<rparr>) = globals s"
  "globals (s\<lparr>scale_reads := c\<rparr>) = globals s" "globals (s\<lparr>State := w\<rparr>) = globals s"
  "globals (s\<lparr>trace := t\<rparr>) = globals s"
  by (simp_all add: globals_def)

lemma globals_reads [simp]:
  "globals (snd (digitalRead_DISPENSE inp s)) = globals s"
  "globals (snd (digitalRead_MODE inp s)) = globals s"
  "globals (snd (scale_read inp s)) = globals s"
  "globals (snd (DebounceSwitch inp s)) = globals s"
  by (simp_all add: digitalRead_DISPENSE_def digitalRead_MODE_def scale_read_def
      DebounceSwitch_eq)

lemma wait_both_released_globals:
  "wait_both_released fuel inp s = Returned s' \<or> wait_both_released fuel inp s = Running s'
   \<Longrightarrow> globals s' = globals s"
proof (induction fuel arbitrary: s)
  case 0
  then show ?case by auto
next
  case (Suc fuel)
  let ?s1 = "snd (digitalRead_DISPENSE inp s)"
  let ?s2 = "snd (digitalRead_MODE inp ?s1)"
  from Suc.prems consider
    "wait_both_released fuel inp ?s1 = Returned s' \<or> wait_both_released fuel inp ?s1 = Running s'"
    | "wait_both_released fuel inp ?s2 = Returned s' \<or> wait_both_released fuel inp ?s2 = Running s'"
    | "s' = ?s2"
    by (auto simp add: split_def Let_def split: if_splits)
  then show ?case
  proof cases
    case 1
    from Suc.IH [OF 1] show ?thesis by simp
  next
    case 2
    from Suc.IH [OF 2] show ?thesis by simp
  next
    case 3
    then show ?thesis by simp
  qed
qed

lemma wait_both_released_not_Fault: "wait_both_released fuel inp s \<noteq> Fault"
  by (induction fuel arbitrary: s) (auto simp add: split_def Let_def)

lemma selection_loop_outcome:
  assumes "selectionIndex = 0 \<or> selectionIndex = 1 \<or> selectionIndex = 2"
  shows "(selection_loop fuel inp (s, selectionFlag, selectionIndex) = Returned (s', fl, i)
            \<longrightarrow> globals s' = globals s \<and> (i = 0 \<or> i = 1 \<or> i = 2))
       \<and> (selection_loop fuel inp (s, selectionFlag, selectionIndex) = Running s'
            \<longrightarrow> globals s' = globals s)
       \<and> selection_loop fuel inp (s, selectionFlag, selectionIndex) \<noteq> Fault"
  using assms
proof (induction fuel arbitrary: s selectionFlag selectionIndex)
  case 0
  show ?case by simp
next
  case (Suc fuel)
  show ?case
  proof (cases "selectionFlag = 0")
    case False
    with Suc.prems show ?thesis by auto
  next
    case True
    let ?s3 = "updateMode selectionIndex (snd (digitalRead_DISPENSE inp (snd (DebounceSwitch inp s))))"
    let ?fl = "if fst (digitalRead_DISPENSE inp (snd (DebounceSwitch inp s))) = LOW then 1 else selectionFlag"
    let ?i = "if fst (DebounceSwitch inp s) = 1
                   then (let j = selectionIndex + 1 in if sint j > 2 then 0 else j)
                   else selectionIndex"
    have eq: "selection_loop (Suc fuel) inp (s, selectionFlag, selectionIndex)
        = selection_loop fuel inp (?s3, ?fl, ?i)"
      using True by (simp add: split_def Let_def)
    have i: "?i = 0 \<or> ?i = 1 \<or> ?i = 2"
      using Suc.prems by (auto simp add: Let_def)
    have k: "globals ?s3 = globals s" by simp
    from Suc.IH [OF i, of ?s3 ?fl] show ?thesis
      unfolding eq k by blast
  qed
qed

lemma selection_outcome:
  "(selection fuel inp s = Returned (i, s') \<longrightarrow> globals s' = globals s \<and> (i = 0 \<or> i = 1 \<or> i = 2))
   \<and> (selection fuel inp s = Running s' \<longrightarrow> globals s' = globals s)
   \<and> selection fuel inp s \<noteq> Fault"
proof -
  let ?s0 = "emit [Lcd_clear, Lcd_setCursor 0 0, Lcd_print ''Entering Calib''] s"
  show ?thesis
  proof (cases "wait_both_released fuel inp ?s0")
    case Fault
    then show ?thesis by (simp add: wait_both_released_not_Fault)
  next
    case (Running s1)
    with wait_both_released_globals [of fuel inp ?s0 s1] show ?thesis
      by (auto simp add: selection_def)
  next
    case (Returned s1)
    let ?s1 = "updateMode 0
                (emit [Lcd_setCursor 0 1, Lcd_print ''Choose Volume'', Lcd_clear,
                       Lcd_setCursor 0 0, Lcd_print ''Press DISPENSE '',
                       Lcd_setCursor 0 1, Lcd_print ''to confirm ''] s1)"
    from wait_both_released_globals [of fuel inp ?s0 s1] Returned
    have k1: "globals ?s1 = globals s"
      by simp
    have eq: "selection fuel inp s = and_then (selection_loop fuel inp (?s1, 0, 0))
          (\<lambda>(s2, selectionFlag, selectionIndex). Returned (selectionIndex, emit [Lcd_clear] s2))"
      using Returned by (simp add: selection_def)
    show ?thesis
    proof (cases "selection_loop fuel inp (?s1, 0, 0)")
      case Fault
      with selection_loop_outcome [of 0 fuel inp ?s1 0] show ?thesis by simp
    next
      case (Running s2)
      with selection_loop_outcome [of 0 fuel inp ?s1 0 s2] k1 show ?thesis
        unfolding eq by auto
    next
      case (Returned r)
      obtain s2 fl j where r: "r = (s2, fl, j)" by (cases r)
      with Returned selection_loop_outcome [of 0 fuel inp ?s1 0 s2 fl j] k1 show ?thesis
        unfolding eq by auto
    qed
  qed
qed


lemma hold_loop_outcome:
  "hold_loop fuel inp (s, lv, fl) = Returned (s', lv', fl')
     \<or> hold_loop fuel inp (s, lv, fl) = Running (s', lv', fl')
   \<Longrightarrow> val s' = val s \<and> index s' = index s \<and> selectedMode s' = selectedMode s
       \<and> eeprom s' = eeprom s
       \<and> ((units_reads s' = units_reads s \<and> lv' = lv \<and> fl' = fl)
          \<or> (units_reads s < units_reads s' \<and> lv' = units_in inp (units_reads s' - 1)
              \<and> fl' \<noteq> 0))"
proof (induction fuel arbitrary: s lv fl)
  case 0
  then show ?case by auto
next
  case (Suc fuel)
  show ?case
  proof (cases "mode_in inp (mode_reads s) = LOW")
    case False
    with Suc.prems show ?thesis
      by (auto simp add: digitalRead_MODE_def)
  next
    case True
    let ?s3 = "(emit [DigitalWrite LED_BUILTIN HIGH, DigitalWrite RELAY_PIN HIGH]
                 (s\<lparr>mode_reads := Suc (mode_reads s)\<rparr>))\<lparr>units_reads := Suc (units_reads s)\<rparr>"
    let ?u = "units_in inp (units_reads s)"
    let ?fl = "if fl = 0 then 1 else fl"
    have eq: "hold_loop (Suc fuel) inp (s, lv, fl) = hold_loop fuel inp (?s3, ?u, ?fl)"
      using True by (simp add: digitalRead_MODE_def scale_get_units_neg_def Let_def)
    from Suc.prems have "hold_loop fuel inp (?s3, ?u, ?fl) = Returned (s', lv', fl')
       \<or> hold_loop fuel inp (?s3, ?u, ?fl) = Running (s', lv', fl')"
      unfolding eq .
    from Suc.IH [OF this] show ?thesis
      by (cases "fl = 0") auto
  qed
qed

lemma hold_loop_not_Fault: "hold_loop fuel inp x \<noteq> Fault"
proof (induction fuel arbitrary: x)
  case 0
  show ?case by (cases x) simp
next
  case (Suc fuel)
  show ?case
    using Suc.IH by (cases x) (simp add: split_def Let_def)
qed

lemma capture_loop_outcome:
  "(capture_loop inner fuel inp (s, lv, fl) = Returned (s', lv', fl')
      \<longrightarrow> val s' = val s \<and> index s' = index s \<and> selectedMode s' = selectedMode s
          \<and> eeprom s' = eeprom s \<and> fl' \<noteq> 0
          \<and> ((fl \<noteq> 0 \<and> units_reads s' = units_reads s \<and> lv' = lv)
             \<or> (units_reads s < units_reads s' \<and> lv' = units_in inp (units_reads s' - 1))))
   \<and> (capture_loop inner fuel inp (s, lv, fl) = Running (s', lv', fl')
      \<longrightarrow> val s' = val s \<and> index s' = index s \<and> selectedMode s' = selectedMode s
          \<and> eeprom s' = eeprom s)
   \<and> capture_loop inner fuel inp (s, lv, fl) \<noteq> Fault"
proof (induction fuel arbitrary: s lv fl)
  case 0
  show ?case by simp
next
  case (Suc fuel)
  show ?case
  proof (cases "fl = 0")
    case False
    then show ?thesis by auto
  next
    case True
    show ?thesis
    proof (cases "hold_loop inner inp (s, lv, fl)")
      case Fault
      then show ?thesis by (simp add: hold_loop_not_Fault)
    next
      case (Running r)
      obtain s1 lv1 fl1 where r: "r = (s1, lv1, fl1)" by (cases r)
      from hold_loop_outcome [of inner inp s lv fl s1 lv1 fl1] Running r True
      show ?thesis by auto
    next
      case (Returned r)
      obtain s1 lv1 fl1 where r: "r = (s1, lv1, fl1)" by (cases r)
      let ?s1 = "emit [DigitalWrite LED_BUILTIN LOW, DigitalWrite RELAY_PIN LOW] s1"
      have eq: "capture_loop inner (Suc fuel) inp (s, lv, fl)
          = capture_loop inner fuel inp (?s1, lv1, fl1)"
        using True Returned r by simp
      from hold_loop_outcome [of inner inp s lv fl s1 lv1 fl1] Returned r
      have h: "val s1 = val s" "index s1 = index s" "selectedMode s1 = selectedMode s"
        "eeprom s1 = eeprom s"
        "(units_reads s1 = units_reads s \<and> lv1 = lv \<and> fl1 = fl)
          \<or> (units_reads s < units_reads s1 \<and> lv1 = units_in inp (units_reads s1 - 1)
              \<and> fl1 \<noteq> 0)"
        by simp_all
      from Suc.IH [of ?s1 lv1 fl1] h True show ?thesis
        unfolding eq by auto
    qed
  qed
qed


lemma calibrateFunction_outcome:
  "(calibrateFunction fuel inp i s = Returned s'
      \<longrightarrow> (\<exists>a. array_read address (sint i) = Some a
            \<and> units_reads s < units_reads s'
            \<and> eeprom s' = EEPROMWrite (eeprom s) a (units_in inp (units_reads s' - 1)))
          \<and> val s' = val s \<and> index s' = index s \<and> selectedMode s' = selectedMode s)
   \<and> (calibrateFunction fuel inp i s = Running s'
      \<longrightarrow> val s' = val s \<and> index s' = index s \<and> selectedMode s' = selectedMode s
          \<and> eeprom s' = eeprom s)
   \<and> (calibrateFunction fuel inp i s = Fault
      \<longrightarrow> array_read (val s) (sint i) = None \<or> array_read address (sint i) = None)"
proof (cases "array_read (val s) (sint i)")
  case None
  then show ?thesis by (simp add: calibrateFunction_def)
next
  case (Some localValue)
  let ?s1 = "emit [Lcd_setCursor 0 0, Lcd_print ''Begin Calibration'',
                          Lcd_setCursor 0 1, Lcd_print ''Volume: '',
                          Lcd_print_num (map_option sint (array_read VOLUME (sint i))),
                          Lcd_clear, Lcd_println ''Place container   '',
                          Lcd_clear, Lcd_print ''Press VOL button   '',
                          Lcd_setCursor 0 1, Lcd_print ''to fill     '',
                          Lcd_clear, Lcd_setCursor 0 0, Lcd_print ''Release    '',
                          Lcd_setCursor 0 1, Lcd_print ''to save value  ''] s"
  show ?thesis
  proof (cases "capture_loop fuel fuel inp (?s1, localValue, 0)")
    case Fault
    with capture_loop_outcome [of fuel fuel inp ?s1 localValue 0] show ?thesis by simp
  next
    case (Running r)
    obtain s2 lv2 fl2 where r: "r = (s2, lv2, fl2)" by (cases r)
    from capture_loop_outcome [of fuel fuel inp ?s1 localValue 0 s2 lv2 fl2] Running r Some
    show ?thesis
      by (auto simp add: calibrateFunction_def)
  next
    case (Returned r)
    obtain s2 lv2 fl2 where r: "r = (s2, lv2, fl2)" by (cases r)
    from capture_loop_outcome [of fuel fuel inp ?s1 localValue 0 s2 lv2 fl2] Returned r
    have h: "val s2 = val s" "index s2 = index s" "selectedMode s2 = selectedMode s"
      "eeprom s2 = eeprom s" "units_reads s < units_reads s2"
      "lv2 = units_in inp (units_reads s2 - 1)"
      by simp_all
    show ?thesis
    proof (cases "array_read address (sint i)")
      case None
      with Some Returned r show ?thesis
        by (simp add: calibrateFunction_def)
    next
      case (Some a)
      with \<open>array_read (val s) (sint i) = Some localValue\<close> Returned r h show ?thesis
        by (auto simp add: calibrateFunction_def)
    qed
  qed
qed

text \<open>The mode button is never pressed.\<close>

lemma capture_loop_idle:
  "\<forall>k\<ge>mode_reads s. mode_in inp k = HIGH \<Longrightarrow>
   \<exists>s' evs. capture_loop inner fuel inp (s, lv, 0) = Running (s', lv, 0)
     \<and> globals s' = globals s \<and> trace s' = trace s @ evs
     \<and> DigitalWrite RELAY_PIN HIGH \<notin> set evs"
proof (induction fuel arbitrary: s)
  case 0
  show ?case by simp
next
  case (Suc fuel)
  show ?case
  proof (cases inner)
    case 0
    then show ?thesis by simp
  next
    case (Suc inner')
    let ?s1 = "emit [DigitalWrite LED_BUILTIN LOW, DigitalWrite RELAY_PIN LOW]
                 (s\<lparr>mode_reads := Suc (mode_reads s)\<rparr>)"
    from Suc.prems have "mode_in inp (mode_reads s) = HIGH" by simp
    then have eq: "capture_loop inner (Suc fuel) inp (s, lv, 0)
        = capture_loop inner fuel inp (?s1, lv, 0)"
      using Suc by (simp add: digitalRead_MODE_def)
    from Suc.prems have "\<forall>k\<ge>mode_reads ?s1. mode_in inp k = HIGH" by simp
    from Suc.IH [OF this] obtain s' evs where
      "capture_loop inner fuel inp (?s1, lv, 0) = Running (s', lv, 0)"
      "globals s' = globals ?s1" "trace s' = trace ?s1 @ evs"
      "DigitalWrite RELAY_PIN HIGH \<notin> set evs"
      by blast
    then show ?thesis
      unfolding eq by simp
  qed
qed


text \<open>
  Claim C8. From the capture phase on, let every read of the mode button be \<open>HIGH\<close> (the
  button is never pressed), and let \<open>v\<close> be the value \<^verbatim>\<open>val[localIndex]\<close> the function
  starts with. Then for every bound on the number of iterations \<^verbatim>\<open>calibrateFunction\<close>
  is still in its capture loop, the EEPROM and \<open>val\<close> are as they were, the relay was
  never switched on, and the locals of the loop are still \<open>localValue = v\<close> and
  \<open>flag = 0\<close>: nothing is written, and the function does not come back.
\<close>

theorem C8_no_press_keeps_stored_threshold:
  assumes "\<forall>k\<ge>mode_reads s. mode_in inp k = HIGH"
    and "array_read (val s) (sint i) = Some v"
  shows "(\<exists>s'. calibrateFunction fuel inp i s = Running s'
            \<and> eeprom s' = eeprom s \<and> val s' = val s
            \<and> DigitalWrite RELAY_PIN HIGH \<notin> set (drop (length (trace s)) (trace s')))
       \<and> (\<exists>s'. capture_loop inner fuel inp (s, v, 0) = Running (s', v, 0)
            \<and> eeprom s' = eeprom s \<and> val s' = val s)"
proof
  let ?s1 = "emit [Lcd_setCursor 0 0, Lcd_print ''Begin Calibration'',
                          Lcd_setCursor 0 1, Lcd_print ''Volume: '',
                          Lcd_print_num (map_option sint (array_read VOLUME (sint i))),
                          Lcd_clear, Lcd_println ''Place container   '',
                          Lcd_clear, Lcd_print ''Press VOL button   '',
                          Lcd_setCursor 0 1, Lcd_print ''to fill     '',
                          Lcd_clear, Lcd_setCursor 0 0, Lcd_print ''Release    '',
                          Lcd_setCursor 0 1, Lcd_print ''to save value  ''] s"
  from assms(1) have "\<forall>k\<ge>mode_reads ?s1. mode_in inp k = HIGH" by simp
  from capture_loop_idle [OF this, of fuel fuel v] obtain s' evs where
    c: "capture_loop fuel fuel inp (?s1, v, 0) = Running (s', v, 0)"
      "globals s' = globals ?s1" "trace s' = trace ?s1 @ evs"
      "DigitalWrite RELAY_PIN HIGH \<notin> set evs"
    by blast
  have "calibrateFunction fuel inp i s = Running s'"
    using assms(2) c(1) by (simp add: calibrateFunction_def)
  moreover have "eeprom s' = eeprom s" "val s' = val s"
    using c(2) by (simp_all add: globals_def)
  moreover have "DigitalWrite RELAY_PIN HIGH \<notin> set (drop (length (trace s)) (trace s'))"
    using c(3,4) by simp
  ultimately show "\<exists>s'. calibrateFunction fuel inp i s = Running s'
            \<and> eeprom s' = eeprom s \<and> val s' = val s
            \<and> DigitalWrite RELAY_PIN HIGH \<notin> set (drop (length (trace s)) (trace s'))"
    by blast
next
  from capture_loop_idle [OF assms(1), of inner fuel v] obtain s' evs where
    c: "capture_loop inner fuel inp (s, v, 0) = Running (s', v, 0)" "globals s' = globals s"
    by blast
  then show "\<exists>s'. capture_loop inner fuel inp (s, v, 0) = Running (s', v, 0)
            \<and> eeprom s' = eeprom s \<and> val s' = val s"
    by (auto simp add: globals_def)
qed

theorem C8_no_press_witness:
  "(\<forall>k. mode_in (steady HIGH HIGH 0 0) k = HIGH)
   \<and> array_read (val (power_up erased)) (sint (0 :: cint)) = Some 220000
   \<and> (\<exists>s'. calibrateFunction 7 (steady HIGH HIGH 0 0) 0 (power_up erased) = Running s'
          \<and> eeprom s' = erased \<and> val s' = [220000, 240000, 250000, - 1])
   \<and> (\<exists>s'. capture_loop 7 7 (steady HIGH HIGH 0 0) (power_up erased, 220000, 0)
            = Running (s', 220000, 0))"
  using C8_no_press_keeps_stored_threshold
    [where s = "power_up erased" and inp = "steady HIGH HIGH 0 0" and i = 0 and v = 220000
       and fuel = 7 and inner = 7]
  by (simp add: steady_def array_read_def) blast

lemma inspect_loop_outcome:
  "(inspect_loop fuel inp (s, fl, i) = Returned (s', fl', i') \<longrightarrow> globals s' = globals s)
   \<and> (inspect_loop fuel inp (s, fl, i) = Running s' \<longrightarrow> globals s' = globals s)
   \<and> inspect_loop fuel inp (s, fl, i) \<noteq> Fault"
proof (induction fuel arbitrary: s fl i)
  case 0
  show ?case by simp
next
  case (Suc fuel)
  show ?case
  proof (cases "fl = 0")
    case False
    then show ?thesis by auto
  next
    case True
    obtain s4 fl1 i1 where eq: "inspect_loop (Suc fuel) inp (s, fl, i)
        = inspect_loop fuel inp (s4, fl1, i1)" and g: "globals s4 = globals s"
      using True
      by (simp add: split_def Let_def digitalRead_DISPENSE_def scale_read_def globals_def
          DebounceSwitch_eq)
    from Suc.IH [of s4 fl1 i1] show ?thesis
      unfolding eq g by blast
  qed
qed

subsection \<open>setup\<close>

lemma inspectContents_outcome:
  "(inspectContents fuel inp s = Returned s' \<or> inspectContents fuel inp s = Running s'
      \<longrightarrow> globals s' = globals s)
   \<and> inspectContents fuel inp s \<noteq> Fault"
proof -
  let ?s0 = "emit [Lcd_clear, Lcd_setCursor 0 0, Lcd_print ''Inspect Contents '',
                 Lcd_setCursor 0 0, Lcd_print ''Use VOL button   '',
                 Lcd_setCursor 0 1, Lcd_print ''to toggle'', Lcd_clear,
                 Lcd_setCursor 0 0, Lcd_print ''Use DISP button'',
                 Lcd_setCursor 0 1, Lcd_print ''to exit'', Lcd_clear] s"
  show ?thesis
  proof (cases "inspect_loop fuel inp (?s0, 0, 0)")
    case Fault
    with inspect_loop_outcome [of fuel inp ?s0 0 0] show ?thesis by simp
  next
    case (Running s1)
    with inspect_loop_outcome [where fuel = fuel and inp = inp and s = ?s0 and fl = 0 and i = 0
        and s' = s1] show ?thesis
      by (auto simp add: inspectContents_def)
  next
    case (Returned r)
    obtain s1 fl1 i1 where r: "r = (s1, fl1, i1)" by (cases r)
    with Returned inspect_loop_outcome [of fuel inp ?s0 0 0 s1 fl1 i1] show ?thesis
      by (auto simp add: inspectContents_def)
  qed
qed

lemma address_simps [simp]:
  "address ! 0 = 0" "address ! 1 = 4" "address ! Suc 0 = 4" "address ! 2 = 8" "length address = 3"
  by (simp_all add: address_def)

lemma load_thresholds_eq:
  "load_thresholds s =
     s\<lparr>val := (val s)[0 := EEPROMRead (eeprom s) (scast (address ! 0)),
                      1 := EEPROMRead (eeprom s) (scast (address ! 1)),
                      2 := EEPROMRead (eeprom s) (scast (address ! 2))]\<rparr>"
  by (simp add: load_thresholds_def upt_small)

lemma load_thresholds_val:
  assumes "length (val s) = 4" "j < 3"
  shows "val (load_thresholds s) ! j = EEPROMRead (eeprom s) (scast (address ! j))"
    and "val (load_thresholds s) ! 3 = val s ! 3"
    and "length (val (load_thresholds s)) = 4"
proof -
  from assms(2) consider "j = 0" | "j = 1" | "j = 2" by linarith
  then show "val (load_thresholds s) ! j = EEPROMRead (eeprom s) (scast (address ! j))"
    using assms(1) by cases (simp_all add: load_thresholds_eq)
  show "val (load_thresholds s) ! 3 = val s ! 3" "length (val (load_thresholds s)) = 4"
    using assms(1) by (simp_all add: load_thresholds_eq)
qed

lemma load_thresholds_sel [simp]:
  "index (load_thresholds s) = index s" "selectedMode (load_thresholds s) = selectedMode s"
  "eeprom (load_thresholds s) = eeprom s" "units_reads (load_thresholds s) = units_reads s"
  "mode_reads (load_thresholds s) = mode_reads s" "dispense_reads (load_thresholds s) = dispense_reads s"
  by (simp_all add: load_thresholds_eq)

lemma setup_tail_outcome:
  "setup_tail fuel inp s4 \<noteq> Fault
   \<and> (setup_tail fuel inp s4 = Returned s' \<or> setup_tail fuel inp s4 = Running s'
      \<longrightarrow> globals s' = globals (load_thresholds s4))"
proof -
  let ?s7 = "snd (digitalRead_DISPENSE inp (snd (digitalRead_MODE inp (load_thresholds s4))))"
  have g: "globals ?s7 = globals (load_thresholds s4)" by simp
  show ?thesis
  proof (cases "fst (digitalRead_MODE inp (load_thresholds s4))
          \<noteq> fst (digitalRead_DISPENSE inp (snd (digitalRead_MODE inp (load_thresholds s4))))")
    case False
    then show ?thesis
      using g by (auto simp add: setup_tail_def split_def Let_def)
  next
    case True
    then have eq: "setup_tail fuel inp s4 = and_then (inspectContents fuel inp ?s7)
           (\<lambda>s8. Returned (updateMode (ucast (index s8)) s8))"
      by (simp add: setup_tail_def split_def Let_def)
    show ?thesis
    proof (cases "inspectContents fuel inp ?s7")
      case Fault
      with inspectContents_outcome [of fuel inp ?s7] show ?thesis by simp
    next
      case (Running s8)
      with inspectContents_outcome [of fuel inp ?s7 s8] g show ?thesis
        unfolding eq by auto
    next
      case (Returned s8)
      with inspectContents_outcome [of fuel inp ?s7 s8] g show ?thesis
        unfolding eq by auto
    qed
  qed
qed


lemma calibration_entry:
  assumes len: "length (val s2) = 4"
  shows "and_then (selection fuel inp s2)
            (\<lambda>(sel, s3). calibrateFunction fuel inp sel (s3\<lparr>selectedMode := sel\<rparr>)) \<noteq> Fault
    \<and> (and_then (selection fuel inp s2)
            (\<lambda>(sel, s3). calibrateFunction fuel inp sel (s3\<lparr>selectedMode := sel\<rparr>)) = Running s4
        \<longrightarrow> val s4 = val s2 \<and> index s4 = index s2 \<and> eeprom s4 = eeprom s2)
    \<and> (and_then (selection fuel inp s2)
            (\<lambda>(sel, s3). calibrateFunction fuel inp sel (s3\<lparr>selectedMode := sel\<rparr>)) = Returned s4
        \<longrightarrow> val s4 = val s2 \<and> index s4 = index s2
            \<and> (\<exists>i<3. selectedMode s4 = of_nat i \<and> units_reads s2 < units_reads s4
                  \<and> eeprom s4 = EEPROMWrite (eeprom s2) (address ! i)
                                  (units_in inp (units_reads s4 - 1))))"
proof (cases "selection fuel inp s2")
  case Fault
  with selection_outcome [of fuel inp s2] show ?thesis by simp
next
  case (Running s3)
  with selection_outcome [of fuel inp s2 _ s3] show ?thesis
    by (auto simp add: globals_eq)
next
  case (Returned r)
  obtain sel s3 where r: "r = (sel, s3)" by (cases r)
  from selection_outcome [of fuel inp s2 sel s3] Returned r
  have g: "globals s3 = globals s2" and sel: "sel = 0 \<or> sel = 1 \<or> sel = 2"
    by simp_all
  let ?s3 = "s3\<lparr>selectedMode := sel\<rparr>"
  have eq: "and_then (selection fuel inp s2)
            (\<lambda>(sel, s3). calibrateFunction fuel inp sel (s3\<lparr>selectedMode := sel\<rparr>))
      = calibrateFunction fuel inp sel ?s3"
    using Returned r by simp
  from sel obtain i where i: "i < 3" "sel = of_nat i" "sint sel = int i"
    by (elim disjE) (auto intro: that [of 0] that [of 1] that [of 2])
  have rd: "array_read (val ?s3) (sint sel) \<noteq> None"
    "array_read address (sint sel) = Some (address ! i)"
    using i g len by (simp_all add: array_read_def globals_eq)
  from calibrateFunction_outcome [of fuel inp sel ?s3 s4] rd g i show ?thesis
    unfolding eq by (auto simp add: globals_eq)
qed


lemma setup_sketch_eq:
  "setup_sketch fuel inp s =
     and_then
       (if dispense_in inp (dispense_reads s) = LOW
        then (if mode_in inp (mode_reads s) = LOW
              then and_then
                     (selection fuel inp
                        ((emit [DigitalWrite A2 LOW, Lcd_setCursor 0 0,
                                Lcd_println ''Dispense machine  '', Lcd_setCursor 0 1,
                                Lcd_println ''V1.3  '', Lcd_clear] s)
                           \<lparr>dispense_reads := Suc (dispense_reads s),
                             mode_reads := Suc (mode_reads s)\<rparr>))
                     (\<lambda>(sel, s3). calibrateFunction fuel inp sel (s3\<lparr>selectedMode := sel\<rparr>))
              else Returned
                     ((emit [DigitalWrite A2 LOW, Lcd_setCursor 0 0,
                             Lcd_println ''Dispense machine  '', Lcd_setCursor 0 1,
                             Lcd_println ''V1.3  '', Lcd_clear] s)
                        \<lparr>dispense_reads := Suc (dispense_reads s),
                          mode_reads := Suc (mode_reads s)\<rparr>))
        else Returned
               ((emit [DigitalWrite A2 LOW, Lcd_setCursor 0 0,
                       Lcd_println ''Dispense machine  '', Lcd_setCursor 0 1,
                       Lcd_println ''V1.3  '', Lcd_clear] s)
                  \<lparr>dispense_reads := Suc (dispense_reads s)\<rparr>))
       (setup_tail fuel inp)"
  by (simp add: setup_sketch_def digitalRead_DISPENSE_def digitalRead_MODE_def Let_def)

text \<open>What \<open>setup_sketch\<close> leaves behind, whichever way it takes.\<close>

lemma setup_sketch_outcome:
  assumes len: "length (val s) = 4"
  shows "setup_sketch fuel inp s \<noteq> Fault
    \<and> (setup_sketch fuel inp s = Running s'
        \<longrightarrow> index s' = index s \<and> length (val s') = 4 \<and> val s' ! 3 = val s ! 3)
    \<and> (setup_sketch fuel inp s = Returned s'
        \<longrightarrow> index s' = index s \<and> length (val s') = 4 \<and> val s' ! 3 = val s ! 3
            \<and> (\<forall>j<3. val s' ! j = EEPROMRead (eeprom s') (scast (address ! j)))
            \<and> (dispense_in inp (dispense_reads s) = LOW \<and> mode_in inp (mode_reads s) = LOW
                \<longrightarrow> (\<exists>i<3. selectedMode s' = of_nat i \<and> units_reads s < units_reads s'
                      \<and> eeprom s' = EEPROMWrite (eeprom s) (address ! i)
                                      (units_in inp (units_reads s' - 1)))))"
proof -
  let ?s0 = "emit [DigitalWrite A2 LOW, Lcd_setCursor 0 0,
                       Lcd_println ''Dispense machine  '', Lcd_setCursor 0 1,
                       Lcd_println ''V1.3  '', Lcd_clear] s"
  let ?s1 = "?s0\<lparr>dispense_reads := Suc (dispense_reads s)\<rparr>"
  let ?s2 = "?s0\<lparr>dispense_reads := Suc (dispense_reads s), mode_reads := Suc (mode_reads s)\<rparr>"
  have tail: "setup_tail fuel inp s4 \<noteq> Fault
    \<and> (setup_tail fuel inp s4 = Running s'
        \<longrightarrow> index s' = index s \<and> length (val s') = 4 \<and> val s' ! 3 = val s ! 3)
    \<and> (setup_tail fuel inp s4 = Returned s'
        \<longrightarrow> index s' = index s \<and> length (val s') = 4 \<and> val s' ! 3 = val s ! 3
            \<and> (\<forall>j<3. val s' ! j = EEPROMRead (eeprom s') (scast (address ! j)))
            \<and> selectedMode s' = selectedMode s4 \<and> units_reads s' = units_reads s4
            \<and> eeprom s' = eeprom s4)"
    if "val s4 = val s" "index s4 = index s" for s4
  proof -
    from that len have l4: "length (val s4) = 4" by simp
    have "globals s' = globals (load_thresholds s4)"
      if "setup_tail fuel inp s4 = Returned s' \<or> setup_tail fuel inp s4 = Running s'"
      using setup_tail_outcome [of fuel inp s4 s'] that by simp
    moreover have "val (load_thresholds s4) ! 3 = val s4 ! 3"
      "length (val (load_thresholds s4)) = 4"
      using load_thresholds_val(2,3) [OF l4, of 0] by simp_all
    moreover have "\<forall>j<3. val (load_thresholds s4) ! j
        = EEPROMRead (eeprom s4) (scast (address ! j))"
      using load_thresholds_val(1) [OF l4] by simp
    ultimately show ?thesis
      using setup_tail_outcome [of fuel inp s4 s'] \<open>val s4 = val s\<close> \<open>index s4 = index s\<close>
      by (auto simp add: globals_eq)
  qed
  show ?thesis
  proof (cases "dispense_in inp (dispense_reads s) = LOW \<and> mode_in inp (mode_reads s) = LOW")
    case False
    then consider (a) "dispense_in inp (dispense_reads s) \<noteq> LOW"
      | (b) "dispense_in inp (dispense_reads s) = LOW" "mode_in inp (mode_reads s) \<noteq> LOW"
      by blast
    then show ?thesis
    proof cases
      case a
      have "setup_sketch fuel inp s = setup_tail fuel inp ?s1"
        unfolding setup_sketch_eq if_not_P [OF a] and_then_simps ..
      with tail [of ?s1] False show ?thesis by simp
    next
      case b
      have "setup_sketch fuel inp s = setup_tail fuel inp ?s2"
        unfolding setup_sketch_eq if_P [OF b(1)] if_not_P [OF b(2)] and_then_simps ..
      with tail [of ?s2] False show ?thesis by simp
    qed
  next
    case True
    let ?E = "and_then (selection fuel inp ?s2)
         (\<lambda>(sel, s3). calibrateFunction fuel inp sel (s3\<lparr>selectedMode := sel\<rparr>))"
    have eq: "setup_sketch fuel inp s = and_then ?E (setup_tail fuel inp)"
      unfolding setup_sketch_eq if_P [OF conjunct1 [OF True]] if_P [OF conjunct2 [OF True]] ..
    have l2: "length (val ?s2) = 4" using len by simp
    show ?thesis
    proof (cases ?E)
      case Fault
      with calibration_entry [OF l2, of fuel inp] show ?thesis by simp
    next
      case (Running s4)
      with calibration_entry [OF l2, of fuel inp s4] len show ?thesis
        unfolding eq by auto
    next
      case (Returned s4)
      with calibration_entry [OF l2, of fuel inp s4] obtain i where
        c: "val s4 = val s" "index s4 = index s" "i < 3" "selectedMode s4 = of_nat i"
          "units_reads s < units_reads s4"
          "eeprom s4 = EEPROMWrite (eeprom s) (address ! i) (units_in inp (units_reads s4 - 1))"
        by auto
      from tail [OF c(1,2)] c(3-6) Returned show ?thesis
        unfolding eq by auto
    qed
  qed
qed


text \<open>
  Claim C7. Let \<^verbatim>\<open>setup()\<close> be entered with both buttons held and return (so that the
  capture button was pressed and released). Then a preset \<open>i < 3\<close> was selected, and for
  the captured value, which is the last sample of \<^verbatim>\<open>scale.get_units(5) * -1\<close> taken while
  the button was held: the EEPROM is the old one with that value written at
  \<^verbatim>\<open>address[i]\<close>, reading that slot gives the value back, and \<^verbatim>\<open>val[i]\<close> holds the
  value when \<^verbatim>\<open>setup()\<close> returns, before the first \<^verbatim>\<open>loop()\<close>. \<^verbatim>\<open>calibrateFunction\<close>
  itself writes the EEPROM and leaves \<open>val\<close> alone; the table entry is set by the reload
  that follows it in \<^verbatim>\<open>setup()\<close>.
\<close>

theorem C7_calibration_is_persisted_and_reloaded:
  assumes "setup_sketch fuel inp s = Returned s'"
    and "length (val s) = 4"
    and "dispense_in inp (dispense_reads s) = LOW" and "mode_in inp (mode_reads s) = LOW"
  shows "(\<exists>i<3. selectedMode s' = of_nat i \<and> units_reads s < units_reads s'
            \<and> eeprom s' = EEPROMWrite (eeprom s) (address ! i) (units_in inp (units_reads s' - 1))
            \<and> EEPROMRead (eeprom s') (scast (address ! i)) = units_in inp (units_reads s' - 1)
            \<and> val s' ! i = units_in inp (units_reads s' - 1))
     \<and> (\<forall>j s1. calibrateFunction fuel inp j s = Returned s1
           \<longrightarrow> val s1 = val s
               \<and> (\<exists>a. array_read address (sint j) = Some a \<and> units_reads s < units_reads s1
                      \<and> eeprom s1 = EEPROMWrite (eeprom s) a (units_in inp (units_reads s1 - 1))))"
proof
  from setup_sketch_outcome [OF assms(2), of fuel inp s'] assms(1,3,4) obtain i where
    i: "i < 3" "selectedMode s' = of_nat i" "units_reads s < units_reads s'"
      "eeprom s' = EEPROMWrite (eeprom s) (address ! i) (units_in inp (units_reads s' - 1))"
    and v: "\<forall>j<3. val s' ! j = EEPROMRead (eeprom s') (scast (address ! j))"
    by auto
  have "EEPROMRead (eeprom s') (scast (address ! i)) = units_in inp (units_reads s' - 1)"
    unfolding i(4) by (rule EEPROM_roundtrip)
  moreover from v i(1) this have "val s' ! i = units_in inp (units_reads s' - 1)"
    by simp
  ultimately show "\<exists>i<3. selectedMode s' = of_nat i \<and> units_reads s < units_reads s'
            \<and> eeprom s' = EEPROMWrite (eeprom s) (address ! i) (units_in inp (units_reads s' - 1))
            \<and> EEPROMRead (eeprom s') (scast (address ! i)) = units_in inp (units_reads s' - 1)
            \<and> val s' ! i = units_in inp (units_reads s' - 1)"
    using i by blast
next
  show "\<forall>j s1. calibrateFunction fuel inp j s = Returned s1
           \<longrightarrow> val s1 = val s
               \<and> (\<exists>a. array_read address (sint j) = Some a \<and> units_reads s < units_reads s1
                      \<and> eeprom s1 = EEPROMWrite (eeprom s) a (units_in inp (units_reads s1 - 1)))"
    using calibrateFunction_outcome [of fuel inp _ s] by blast
qed

lemma calib_run:
  "case setup_sketch 5 calib_inputs (power_up erased) of
     Returned s' \<Rightarrow> selectedMode s' = 0 \<and> units_reads s' = 2 | _ \<Rightarrow> False"
  by code_simp

theorem C7_calibration_witness:
  "\<exists>s'. setup_sketch 5 calib_inputs (power_up erased) = Returned s'
     \<and> length (val (power_up erased)) = 4
     \<and> dispense_in calib_inputs (dispense_reads (power_up erased)) = LOW
     \<and> mode_in calib_inputs (mode_reads (power_up erased)) = LOW
     \<and> selectedMode s' = 0 \<and> units_reads s' = 2
     \<and> eeprom s' = EEPROMWrite erased 0 1001
     \<and> EEPROMRead (eeprom s') 0 = 1001
     \<and> val s' ! 0 = 1001"
proof -
  from calib_run obtain s' where
    r: "setup_sketch 5 calib_inputs (power_up erased) = Returned s'"
      "selectedMode s' = 0" "units_reads s' = 2"
    by (cases "setup_sketch 5 calib_inputs (power_up erased)") auto
  have h: "length (val (power_up erased)) = 4"
    "dispense_in calib_inputs (dispense_reads (power_up erased)) = LOW"
    "mode_in calib_inputs (mode_reads (power_up erased)) = LOW"
    by (simp_all add: calib_inputs_def)
  from C7_calibration_is_persisted_and_reloaded [OF r(1) h] obtain i where
    i: "i < 3" "selectedMode s' = of_nat i"
      "eeprom s' = EEPROMWrite (eeprom (power_up erased)) (address ! i)
          (units_in calib_inputs (units_reads s' - 1))"
      "EEPROMRead (eeprom s') (scast (address ! i)) = units_in calib_inputs (units_reads s' - 1)"
      "val s' ! i = units_in calib_inputs (units_reads s' - 1)"
    by blast
  from i(1,2) r(2) have "i = 0"
    by (auto simp add: less_Suc_eq numeral_3_eq_3)
  with i r h show ?thesis
    by (simp add: calib_inputs_def)
qed

subsection \<open>The board from power-up\<close>

lemma byte_le_3: "(i :: 8 word) \<le> 3 \<longleftrightarrow> i = 0 \<or> i = 1 \<or> i = 2 \<or> i = 3"
proof
  assume "i \<le> 3"
  then have "unat i \<le> 3" by (simp add: word_le_nat_alt)
  then have "unat i = 0 \<or> unat i = 1 \<or> unat i = 2 \<or> unat i = 3" by linarith
  then show "i = 0 \<or> i = 1 \<or> i = 2 \<or> i = 3"
    by (simp add: word_unat_eq_iff)
next
  assume "i = 0 \<or> i = 1 \<or> i = 2 \<or> i = 3"
  then show "i \<le> 3" by auto
qed

lemma threshold_read:
  assumes "index s \<le> 3" "length (val s) = 4"
  shows "array_read (val s) (uint (index s)) = Some (val s ! unat (index s))"
  using assms by (auto simp add: byte_le_3 array_read_def)

lemma volume_read:
  assumes "index s \<le> 3"
  shows "(array_read VOLUME (uint (index s)) = None) = (index s = 3)"
  using assms by (auto simp add: byte_le_3 array_read_def VOLUME_def)

lemma loop_invariant:
  assumes "index s \<le> 3" "length (val s) = 4"
  shows "loop fuel inp s \<noteq> Fault
    \<and> (loop fuel inp s = Returned s' \<or> loop fuel inp s = Running s'
        \<longrightarrow> index s' \<le> 3 \<and> val s' = val s
            \<and> State s' = State (snd (DebounceSwitch inp s))
            \<and> mode_reads s' = mode_reads (snd (DebounceSwitch inp s)))
    \<and> (loop fuel inp s = Returned s'
        \<longrightarrow> index s' = (if fst (DebounceSwitch inp s) = 1 then next_index (index s)
                         else index s))
    \<and> (loop fuel inp s = Running s' \<longrightarrow> index s' = index s)"
proof -
  note thr = threshold_read [OF assms]
  have nf: "loop fuel inp s \<noteq> Fault"
    unfolding loop_eq [OF thr] using control_not_Fault
    by (auto simp add: and_then_def split: outcome.splits)
  have rest: "index s' \<le> 3 \<and> val s' = val s
            \<and> State s' = State (snd (DebounceSwitch inp s))
            \<and> mode_reads s' = mode_reads (snd (DebounceSwitch inp s))
            \<and> (loop fuel inp s = Returned s'
               \<longrightarrow> index s' = (if fst (DebounceSwitch inp s) = 1 then next_index (index s)
                         else index s))
            \<and> (loop fuel inp s = Running s' \<longrightarrow> index s' = index s)"
    if out: "loop fuel inp s = Returned s' \<or> loop fuel inp s = Running s'"
  proof -
    from loop_step [OF thr out] obtain s4 where
      f: "val s4 = val s" "index s4 = index s"
        "State s4 = next_State (State s) (mode_in inp (mode_reads s))"
        "mode_reads s4 = Suc (mode_reads s)"
        "loop fuel inp s = Running s' \<longrightarrow> s' = s4"
        "loop fuel inp s = Returned s' \<longrightarrow> s' =
           (if fst (DebounceSwitch inp s) = 1
            then updateMode (ucast (next_index (index s4))) (s4\<lparr>index := next_index (index s4)\<rparr>)
            else s4)"
      by blast
    from out show ?thesis
    proof
      assume r: "loop fuel inp s = Running s'"
      with f(5) have "s' = s4" by simp
      with f(1-4) r assms(1) show ?thesis by simp
    next
      assume r: "loop fuel inp s = Returned s'"
      with f(6) have s': "s' = (if fst (DebounceSwitch inp s) = 1
            then updateMode (ucast (next_index (index s4))) (s4\<lparr>index := next_index (index s4)\<rparr>)
            else s4)" by simp
      show ?thesis
        unfolding s' using f(1-4) r assms(1) by (simp add: next_index_le)
    qed
  qed
  from nf rest show ?thesis by blast
qed


lemma fst_DebounceSwitch:
  "fst (DebounceSwitch inp s) =
     (if next_State (State s) (mode_in inp (mode_reads s)) = 0xf000 then 1 else 0)"
  by (simp add: DebounceSwitch_eq)

lemma polls_cong:
  "State s1 = State s2 \<Longrightarrow> mode_reads s1 = mode_reads s2
   \<Longrightarrow> fst (polls n inp s1) = fst (polls n inp s2)"
proof (induction n arbitrary: s1 s2)
  case 0
  show ?case by simp
next
  case (Suc n)
  have "fst (polls n inp (snd (DebounceSwitch inp s1)))
      = fst (polls n inp (snd (DebounceSwitch inp s2)))"
    using Suc.prems by (intro Suc.IH) simp_all
  with Suc.prems show ?case
    by (simp add: polls_Suc)
qed

lemma loop_times_invariant:
  assumes "index s \<le> 3" "length (val s) = 4"
  shows "loop_times fuel n inp s \<noteq> Fault
    \<and> (loop_times fuel n inp s = Returned s' \<or> loop_times fuel n inp s = Running s'
        \<longrightarrow> index s' \<le> 3 \<and> val s' = val s)
    \<and> (loop_times fuel n inp s = Returned s'
        \<longrightarrow> index s' = (next_index ^^ count_list (fst (polls n inp s)) 1) (index s))"
  using assms
proof (induction n arbitrary: s)
  case 0
  then show ?case by auto
next
  case (Suc n)
  note inv = loop_invariant [OF Suc.prems, of fuel inp]
  show ?case
  proof (cases "loop fuel inp s")
    case Fault
    with inv show ?thesis by simp
  next
    case (Running s1)
    with inv [of s1] show ?thesis by auto
  next
    case (Returned s1)
    with inv [of s1] have
      s1: "index s1 \<le> 3" "val s1 = val s"
        "State s1 = State (snd (DebounceSwitch inp s))"
        "mode_reads s1 = mode_reads (snd (DebounceSwitch inp s))"
        "index s1 = (if fst (DebounceSwitch inp s) = 1 then next_index (index s) else index s)"
      by blast+
    have l1: "length (val s1) = 4" using s1(2) Suc.prems(2) by simp
    have eq: "loop_times fuel (Suc n) inp s = loop_times fuel n inp s1"
      using Returned by simp
    have p: "fst (polls n inp (snd (DebounceSwitch inp s))) = fst (polls n inp s1)"
      using s1(3,4) by (intro polls_cong) simp_all
    have c: "count_list (fst (polls (Suc n) inp s)) 1
        = (if fst (DebounceSwitch inp s) = 1 then Suc (count_list (fst (polls n inp s1)) 1)
           else count_list (fst (polls n inp s1)) 1)"
      by (simp add: polls_Suc p fst_DebounceSwitch)
    from Suc.IH [OF s1(1) l1] s1(2,5) show ?thesis
      unfolding eq c by (auto simp add: funpow_swap1)
  qed
qed

lemma run_sketch_invariant:
  "run_sketch fuel n inp ee \<noteq> Fault
   \<and> (run_sketch fuel n inp ee = Returned s' \<or> run_sketch fuel n inp ee = Running s'
       \<longrightarrow> index s' \<le> 3 \<and> length (val s') = 4 \<and> val s' ! 3 = - 1)"
proof -
  have len: "length (val (power_up ee)) = 4" by simp
  note st = setup_sketch_outcome [OF len, of fuel inp]
  show ?thesis
  proof (cases "setup_sketch fuel inp (power_up ee)")
    case Fault
    with st show ?thesis by simp
  next
    case (Running s0)
    with st [of s0] show ?thesis by (auto simp add: run_sketch_def)
  next
    case (Returned s0)
    with st [of s0] have s0: "index s0 \<le> 3" "length (val s0) = 4" "val s0 ! 3 = - 1"
      by simp_all
    from loop_times_invariant [OF s0(1,2), of fuel n inp s'] s0 Returned show ?thesis
      by (auto simp add: run_sketch_def)
  qed
qed

subsection \<open>The trigger of dispensing and the mode index\<close>

text \<open>
  Claim C6. In a state with \<open>index \<le> 3\<close> and the four thresholds in \<open>val\<close> (every state in
  which \<^verbatim>\<open>loop()\<close> is entered is such a state), an iteration of \<^verbatim>\<open>loop()\<close> calls
  \<^verbatim>\<open>control(val[index])\<close> when the dispense button reads \<open>LOW\<close> and the reading
  \<^verbatim>\<open>scale.read() * -1\<close> is below \<^verbatim>\<open>val[index]\<close> in signed order, and otherwise returns
  after its three reads without calling it. The relay is switched on during the
  iteration exactly in the first case, so dispensing never starts on a reading at or
  above the threshold.
\<close>

theorem C6_dispense_starts_iff_pressed_and_below_threshold:
  assumes "index s \<le> 3" and "length (val s) = 4"
  shows "(dispense_in inp (dispense_reads s) = LOW
            \<and> sint (scale_in inp (scale_reads s) * - 1) < sint (val s ! unat (index s))
          \<longrightarrow> loop fuel inp s =
                and_then
                  (control fuel inp (val s ! unat (index s))
                     (emit [Lcd_clear, Lcd_setCursor 0 0, Lcd_print ''Dispensing'',
                            Lcd_setCursor 0 1,
                            Lcd_print_num (map_option sint (array_read VOLUME (uint (index s)))),
                            Lcd_print ''               '', DigitalWrite LED_BUILTIN HIGH,
                            DigitalWrite RELAY_PIN HIGH]
                        (snd (digitalRead_DISPENSE inp (snd (scale_read inp
                           (snd (DebounceSwitch inp s))))))))
                  (\<lambda>s4. Returned
                     (if fst (DebounceSwitch inp s) = 1
                      then updateMode (ucast (next_index (index s4)))
                             (s4\<lparr>index := next_index (index s4)\<rparr>)
                      else s4)))
     \<and> (\<not> (dispense_in inp (dispense_reads s) = LOW
            \<and> sint (scale_in inp (scale_reads s) * - 1) < sint (val s ! unat (index s)))
          \<longrightarrow> (\<exists>s'. loop fuel inp s = Returned s' \<and> scale_reads s' = Suc (scale_reads s)
                  \<and> dispense_reads s' = Suc (dispense_reads s)))
     \<and> (\<forall>s'. loop fuel inp s = Returned s' \<or> loop fuel inp s = Running s'
          \<longrightarrow> (DigitalWrite RELAY_PIN HIGH \<in> set (drop (length (trace s)) (trace s')))
               = (dispense_in inp (dispense_reads s) = LOW
                  \<and> sint (scale_in inp (scale_reads s) * - 1) < sint (val s ! unat (index s))))
     \<and> loop fuel inp s \<noteq> Fault
     \<and> (\<forall>n ee s0. run_sketch fuel n inp ee = Returned s0
          \<longrightarrow> index s0 \<le> 3 \<and> length (val s0) = 4)"
proof (intro conjI allI impI)
  note thr = threshold_read [OF assms]
  {
    assume c: "dispense_in inp (dispense_reads s) = LOW
            \<and> sint (scale_in inp (scale_reads s) * - 1) < sint (val s ! unat (index s))"
    show "loop fuel inp s =
                and_then
                  (control fuel inp (val s ! unat (index s))
                     (emit [Lcd_clear, Lcd_setCursor 0 0, Lcd_print ''Dispensing'',
                            Lcd_setCursor 0 1,
                            Lcd_print_num (map_option sint (array_read VOLUME (uint (index s)))),
                            Lcd_print ''               '', DigitalWrite LED_BUILTIN HIGH,
                            DigitalWrite RELAY_PIN HIGH]
                        (snd (digitalRead_DISPENSE inp (snd (scale_read inp
                           (snd (DebounceSwitch inp s))))))))
                  (\<lambda>s4. Returned
                     (if fst (DebounceSwitch inp s) = 1
                      then updateMode (ucast (next_index (index s4)))
                             (s4\<lparr>index := next_index (index s4)\<rparr>)
                      else s4))"
      unfolding loop_eq [OF thr] if_P [OF c] ..
  }
  {
    assume c: "\<not> (dispense_in inp (dispense_reads s) = LOW
            \<and> sint (scale_in inp (scale_reads s) * - 1) < sint (val s ! unat (index s)))"
    show "\<exists>s'. loop fuel inp s = Returned s' \<and> scale_reads s' = Suc (scale_reads s)
                  \<and> dispense_reads s' = Suc (dispense_reads s)"
      unfolding loop_eq [OF thr] if_not_P [OF c] after_reads by simp
  }
  {
    fix s'
    assume out: "loop fuel inp s = Returned s' \<or> loop fuel inp s = Running s'"
    from loop_step [OF thr out] obtain s4 evs where
      f: "trace s4 = trace s @ evs"
        "(DigitalWrite RELAY_PIN HIGH \<in> set evs)
          = (dispense_in inp (dispense_reads s) = LOW
              \<and> sint (scale_in inp (scale_reads s) * - 1) < sint (val s ! unat (index s)))"
        "loop fuel inp s = Running s' \<longrightarrow> s' = s4"
        "loop fuel inp s = Returned s' \<longrightarrow> s' =
           (if fst (DebounceSwitch inp s) = 1
            then updateMode (ucast (next_index (index s4))) (s4\<lparr>index := next_index (index s4)\<rparr>)
            else s4)"
      by blast
    obtain evs' where e: "trace s' = trace s @ evs @ evs'"
      "DigitalWrite RELAY_PIN HIGH \<notin> set evs'"
    proof (cases "loop fuel inp s = Returned s' \<and> fst (DebounceSwitch inp s) = 1")
      case True
      with f(4) have s': "s' = updateMode (ucast (next_index (index s4)))
          (s4\<lparr>index := next_index (index s4)\<rparr>)" by simp
      from updateMode_trace [of "ucast (next_index (index s4))" "s4\<lparr>index := next_index (index s4)\<rparr>"]
      obtain evs' where "trace s' = trace s4 @ evs'" "DigitalWrite RELAY_PIN HIGH \<notin> set evs'"
        unfolding s' by auto
      with f(1) that show ?thesis by simp
    next
      case False
      with out f(3,4) have "s' = s4" by auto
      with f(1) that [of "[]"] show ?thesis by simp
    qed
    show "(DigitalWrite RELAY_PIN HIGH \<in> set (drop (length (trace s)) (trace s')))
               = (dispense_in inp (dispense_reads s) = LOW
                  \<and> sint (scale_in inp (scale_reads s) * - 1) < sint (val s ! unat (index s)))"
      unfolding e(1) using e(2) f(2) by simp
  }
  show "loop fuel inp s \<noteq> Fault"
    using loop_invariant [OF assms] by blast
  {
    fix n ee s0
    assume "run_sketch fuel n inp ee = Returned s0"
    with run_sketch_invariant [of fuel n inp ee s0]
    show "index s0 \<le> 3" "length (val s0) = 4" by simp_all
  }
qed


lemma filling_run:
  "case loop 2 filling_inputs (power_up erased) of Running s' \<Rightarrow> True | _ \<Rightarrow> False"
  by code_simp

lemma scenario_run:
  "case loop 2 scenario_inputs (power_up erased) of Returned s' \<Rightarrow> True | _ \<Rightarrow> False"
  by code_simp

theorem C6_dispense_trigger_witness:
  "index (power_up erased) \<le> 3 \<and> length (val (power_up erased)) = 4
   \<and> dispense_in filling_inputs (dispense_reads (power_up erased)) = LOW
   \<and> sint (scale_in filling_inputs (scale_reads (power_up erased)) * - 1)
        < sint (val (power_up erased) ! unat (index (power_up erased)))
   \<and> (\<exists>s'. loop 2 filling_inputs (power_up erased) = Running s'
          \<and> DigitalWrite RELAY_PIN HIGH \<in> set (trace s'))
   \<and> \<not> sint (scale_in scenario_inputs (scale_reads (power_up erased)) * - 1)
        < sint (val (power_up erased) ! unat (index (power_up erased)))
   \<and> (\<exists>s'. loop 2 scenario_inputs (power_up erased) = Returned s'
          \<and> DigitalWrite RELAY_PIN HIGH \<notin> set (trace s'))"
proof -
  have inv: "index (power_up erased) \<le> 3" "length (val (power_up erased)) = 4"
    by simp_all
  have a: "dispense_in filling_inputs (dispense_reads (power_up erased)) = LOW"
    "sint (scale_in filling_inputs (scale_reads (power_up erased)) * - 1)
        < sint (val (power_up erased) ! unat (index (power_up erased)))"
    by (simp_all add: filling_inputs_def steady_def)
  have b: "\<not> sint (scale_in scenario_inputs (scale_reads (power_up erased)) * - 1)
        < sint (val (power_up erased) ! unat (index (power_up erased)))"
    by (simp add: scenario_inputs_def steady_def)
  from filling_run obtain s1 where s1: "loop 2 filling_inputs (power_up erased) = Running s1"
    by (cases "loop 2 filling_inputs (power_up erased)") auto
  from scenario_run obtain s2 where s2: "loop 2 scenario_inputs (power_up erased) = Returned s2"
    by (cases "loop 2 scenario_inputs (power_up erased)") auto
  from C6_dispense_starts_iff_pressed_and_below_threshold [OF inv, of filling_inputs 2] s1 a
  have "DigitalWrite RELAY_PIN HIGH \<in> set (trace s1)"
    by simp
  moreover
  from C6_dispense_starts_iff_pressed_and_below_threshold [OF inv, of scenario_inputs 2] s2 b
  have "DigitalWrite RELAY_PIN HIGH \<notin> set (trace s2)"
    by simp
  ultimately show ?thesis
    using inv a b s1 s2 by blast
qed

text \<open>
  Claim C9. The mode index starts at 0; the four lines of \<^verbatim>\<open>loop()\<close> that advance it take
  0 to 1, 1 to 2, 2 to 3 and 3 back to 0, so that \<open>k\<close> advances from 0 give \<open>k mod 4\<close>;
  an iteration of \<^verbatim>\<open>loop()\<close> advances the index exactly when \<^verbatim>\<open>DebounceSwitch()\<close>
  returned 1 in it; after \<^verbatim>\<open>setup()\<close> and \<open>n\<close> iterations the index is the number of
  iterations in which the debouncer returned 1, modulo 4; and in every state the board
  reaches, at the end of an iteration or inside a waiting loop, the index is at most 3.
\<close>

theorem C9_mode_index_cycles:
  "index (power_up ee) = 0
   \<and> next_index 0 = 1 \<and> next_index 1 = 2 \<and> next_index 2 = 3 \<and> next_index 3 = 0
   \<and> (next_index ^^ k) 0 = of_nat (k mod 4)
   \<and> (index s \<le> 3 \<and> length (val s) = 4 \<and> loop fuel inp s = Returned s'
       \<longrightarrow> index s' = (if fst (DebounceSwitch inp s) = 1 then next_index (index s)
                        else index s))
   \<and> (\<forall>s0 s1. setup_sketch fuel inp (power_up ee) = Returned s0
         \<and> loop_times fuel n inp s0 = Returned s1
       \<longrightarrow> index s1 = of_nat (count_list (fst (polls n inp s0)) 1 mod 4))
   \<and> (\<forall>s1. run_sketch fuel n inp ee = Returned s1 \<or> run_sketch fuel n inp ee = Running s1
       \<longrightarrow> index s1 \<le> 3 \<and> unat (index s1) \<in> {0, 1, 2, 3})"
proof (intro conjI allI impI)
  show "index (power_up ee) = 0" by simp
  show "next_index 0 = 1" "next_index 1 = 2" "next_index 2 = 3" "next_index 3 = 0"
    by (rule next_index_cases)+
  show "(next_index ^^ k) 0 = of_nat (k mod 4)"
    by (rule next_index_funpow)
  {
    assume a: "index s \<le> 3 \<and> length (val s) = 4 \<and> loop fuel inp s = Returned s'"
    then have "index s \<le> 3" "length (val s) = 4" by simp_all
    from loop_invariant [OF this, of fuel inp s'] a
    show "index s' = (if fst (DebounceSwitch inp s) = 1 then next_index (index s) else index s)"
      by simp
  }
  {
    fix s0 s1
    assume a: "setup_sketch fuel inp (power_up ee) = Returned s0
         \<and> loop_times fuel n inp s0 = Returned s1"
    have len: "length (val (power_up ee)) = 4" by simp
    from setup_sketch_outcome [OF len, of fuel inp s0] a
    have s0: "index s0 = 0" "length (val s0) = 4" by simp_all
    then have "index s0 \<le> 3" by simp
    from loop_times_invariant [OF this s0(2), of fuel n inp s1] a s0(1)
    show "index s1 = of_nat (count_list (fst (polls n inp s0)) 1 mod 4)"
      by (simp add: next_index_funpow)
  }
  {
    fix s1
    assume "run_sketch fuel n inp ee = Returned s1 \<or> run_sketch fuel n inp ee = Running s1"
    with run_sketch_invariant [of fuel n inp ee s1] have i: "index s1 \<le> 3" by simp
    then show "index s1 \<le> 3" .
    from i show "unat (index s1) \<in> {0, 1, 2, 3}"
      by (auto simp add: byte_le_3)
  }
qed

lemma manual_run:
  "case run_sketch 2 39 manual_inputs erased of Returned s1 \<Rightarrow> index s1 = 3 | _ \<Rightarrow> False"
  by code_simp

theorem C9_mode_index_witness:
  "\<exists>s0 s1. setup_sketch 2 manual_inputs (power_up erased) = Returned s0
     \<and> loop_times 2 39 manual_inputs s0 = Returned s1
     \<and> run_sketch 2 39 manual_inputs erased = Returned s1
     \<and> index s1 = 3
     \<and> index s1 = of_nat (count_list (fst (polls 39 manual_inputs s0)) 1 mod 4)
     \<and> unat (index s1) \<in> {0, 1, 2, 3}"
proof -
  from manual_run obtain s1 where
    r: "run_sketch 2 39 manual_inputs erased = Returned s1" and i: "index s1 = 3"
    by (cases "run_sketch 2 39 manual_inputs erased") auto
  from r obtain s0 where
    s0: "setup_sketch 2 manual_inputs (power_up erased) = Returned s0"
      "loop_times 2 39 manual_inputs s0 = Returned s1"
    unfolding run_sketch_def
    by (cases "setup_sketch 2 manual_inputs (power_up erased)") auto
  note t = C9_mode_index_cycles [where ee = erased and k = 0 and s = s0 and fuel = 2
      and inp = manual_inputs and n = 39]
  from t s0 have "index s1 = of_nat (count_list (fst (polls 39 manual_inputs s0)) 1 mod 4)"
    by blast
  moreover from t r have "unat (index s1) \<in> {0, 1, 2, 3}"
    by blast
  ultimately show ?thesis
    using s0 r i by blast
qed


text \<open>
  Claim C10 at a state the board reaches. From power-up with an erased EEPROM, the mode
  button is pressed and released three times, which takes 39 iterations of \<^verbatim>\<open>loop()\<close>
  and leaves \<open>index = 3\<close> (manual mode, threshold \<open>-1\<close>). In the next iteration the
  dispense button reads held and the reading is \<open>-2\<close>, so the dispense branch is entered,
  and its \<^verbatim>\<open>lcd.print(VOLUME[index])\<close> reads \<open>VOLUME[3]\<close>, outside the three elements of
  \<open>VOLUME\<close>.
\<close>

theorem C10_manual_mode_reads_past_VOLUME:
  "case run_sketch 2 39 manual_inputs erased of
     Returned s \<Rightarrow>
       index s = 3 \<and> array_read (val s) (uint (index s)) = Some (- 1)
       \<and> dispense_in manual_inputs (dispense_reads s) = LOW
       \<and> sint (scale_in manual_inputs (scale_reads s) * - 1) < - 1
       \<and> array_read VOLUME (uint (index s)) = None
       \<and> (case loop 2 manual_inputs s of
             Returned s' \<Rightarrow> Lcd_print_num None \<in> set (drop (length (trace s)) (trace s'))
           | _ \<Rightarrow> False)
   | _ \<Rightarrow> False"
  by code_simp

end
